(* ===== verification/Prelude.thy ===== *)
theory Prelude
  imports Complex_Main "HOL-Library.Word" "HOL-Library.Monad_Syntax"
begin

unbundle bit_operations_syntax

text \<open>
  Shared vocabulary of the development: the machine-word types of CPython's
  random module and set implementation, the interface of a 32-bit random word
  source, Python's exceptions, and the result type of Python statements that
  may raise an exception or never return. The collection \<open>eval_cong\<close> holds
  the weak congruence rules under which \<open>simp\<close> evaluates the
  \<^theory_text>\<open>partial_function\<close> definitions of the development on closed inputs
  without unfolding recursive calls under binders.
\<close>

type_synonym u32 = "32 word"
type_synonym u64 = "64 word"

text \<open>
  A source of 32-bit random words: CPython's \<open>genrand_uint32\<close> applied to the
  generator state \<open>'s\<close>. Every method of \<open>random.Random\<close> the generator script
  calls is built on this one function.
\<close>

type_synonym 's rng = "'s \<Rightarrow> u32 \<times> 's"

text \<open>Python exceptions raised by the modelled code (messages are not modelled;
  \<open>KeyError\<close> keeps its key). \<open>EmptyDataError\<close> and \<open>ParserError\<close> are pandas' errors.\<close>

datatype pyexc = ValueError | IndexError | KeyError string | FileNotFoundError | EmptyDataError | ParserError

text \<open>
  A Python computation over a state \<open>'s\<close>: \<open>None\<close> when it never returns,
  \<open>Some (Inl e, s)\<close> when it raises \<open>e\<close>, \<open>Some (Inr v, s)\<close> when it returns
  \<open>v\<close>; the state is the one at the point of return or raise.
\<close>

type_synonym ('a, 's) pyres = "((pyexc + 'a) \<times> 's) option"

named_theorems eval_simps "equations that evaluate the model on closed inputs"

subsection \<open>The random word stream of a generator\<close>

text \<open>
  \<open>rng_iter nxt j s\<close> is the generator state after \<open>j\<close> calls, and
  \<open>rng_stream nxt s j\<close> the \<open>j\<close>-th word produced from state \<open>s\<close>.
\<close>

primrec rng_iter :: "'s rng \<Rightarrow> nat \<Rightarrow> 's \<Rightarrow> 's" where
  "rng_iter nxt 0 s = s"
| "rng_iter nxt (Suc j) s = rng_iter nxt j (snd (nxt s))"

definition rng_stream :: "'s rng \<Rightarrow> 's \<Rightarrow> nat \<Rightarrow> u32" where
  "rng_stream nxt s j = fst (nxt (rng_iter nxt j s))"

text \<open>A fixed toy word source (a multiplicative counter) used to run the model
  on concrete inputs.\<close>

definition demo_rng :: "nat rng" where
  "demo_rng s = (word_of_nat (s * 2654435761 + 12345), Suc s)"

lemmas eval_cong =
  prod.case_cong_weak let_weak_cong option.case_cong_weak sum.case_cong_weak

lemma unat_drop_bit_div: "unat (drop_bit n (w :: 'a::len word)) = unat w div 2 ^ n"
  unfolding unat_drop_bit_eq by (simp add: drop_bit_eq_div)

lemma unat_u32_less: "unat (w :: u32) < 4294967296"
  using unsigned_less [of w] by simp

lemma demo_rng_eval [eval_simps]: "demo_rng s = (word_of_nat (s * 2654435761 + 12345), Suc s)"
  by (rule demo_rng_def)

lemma rng_stream_0 [simp]: "rng_stream nxt s 0 = fst (nxt s)"
  by (simp add: rng_stream_def)

lemma rng_stream_Suc: "rng_stream nxt s (Suc j) = rng_stream nxt (snd (nxt s)) j"
  by (simp add: rng_stream_def)

lemma rng_iter_add: "rng_iter nxt (i + j) s = rng_iter nxt j (rng_iter nxt i s)"
  by (induction i arbitrary: s) simp_all

lemma rng_iter_Suc_last: "rng_iter nxt (Suc j) s = snd (nxt (rng_iter nxt j s))"
  using rng_iter_add [of nxt j 1 s] by simp

end
