(* ===== verification/PyText.thy ===== *)
theory PyText
  imports Prelude
begin

text \<open>
  Python's conversions between integers and their decimal text, as the
  generator script uses them: \<open>str(i)\<close> (also what an f-string field
  \<open>{i}\<close> prints), \<open>sep.join(xs)\<close>, and the builtin \<open>int(s)\<close> that parses
  the command-line arguments. Strings are lists of 8-bit characters; the
  script's text is ASCII.
\<close>

subsection \<open>Definitions\<close>

definition is_digit :: "char \<Rightarrow> bool" where
  "is_digit c \<longleftrightarrow> (48::nat) \<le> of_char c \<and> of_char c \<le> (57::nat)"

definition digit_char :: "nat \<Rightarrow> char" where
  "digit_char d = char_of (48 + d)"

definition digit_val :: "char \<Rightarrow> nat" where
  "digit_val c = of_char c - 48"

text \<open>The decimal digits of a natural number, most significant first.\<close>

fun str_nat :: "nat \<Rightarrow> string" where
  "str_nat n = (if n < 10 then [digit_char n] else str_nat (n div 10) @ [digit_char (n mod 10)])"

text \<open>\<open>str(i)\<close> for a Python int: a minus sign, then the digits of \<open>|i|\<close>.\<close>

definition str_int :: "int \<Rightarrow> string" where
  "str_int i = (if i < 0 then CHR ''-'' # str_nat (nat (- i)) else str_nat (nat i))"

text \<open>\<open>sep.join(xs)\<close>.\<close>

fun join :: "string \<Rightarrow> string list \<Rightarrow> string" where
  "join sep [] = []"
| "join sep [x] = x"
| "join sep (x # y # xs) = x @ sep @ join sep (y # xs)"

text \<open>The value of a string of digits.\<close>

definition digits_value :: "string \<Rightarrow> nat" where
  "digits_value ds = foldl (\<lambda>acc c. 10 * acc + digit_val c) 0 ds"

text \<open>
  \<open>int(s)\<close> with the default base 10: surrounding whitespace is ignored
  (\<open>str.isspace\<close> on ASCII characters), an optional sign follows, then one
  or more digits, with single underscores allowed between digits. Anything
  else raises \<open>ValueError\<close>.
\<close>

definition py_isspace :: "char \<Rightarrow> bool" where
  "py_isspace c \<longleftrightarrow> of_char c \<in> {9, 10, 11, 12, 13, 28, 29, 30, 31, 32 :: nat}"

definition strip :: "string \<Rightarrow> string" where
  "strip s = rev (dropWhile py_isspace (rev (dropWhile py_isspace s)))"

fun digit_run :: "string \<Rightarrow> bool" where
  "digit_run [] = False"
| "digit_run (c # cs) =
     (is_digit c \<and>
      (case cs of
         [] \<Rightarrow> True
       | d # ds \<Rightarrow> (if d = CHR ''_'' then digit_run ds else digit_run cs)))"

definition split_sign :: "string \<Rightarrow> bool \<times> string" where
  "split_sign t =
     (case t of
        [] \<Rightarrow> (False, [])
      | c # cs \<Rightarrow>
          (if c = CHR ''-'' then (True, cs)
           else if c = CHR ''+'' then (False, cs)
           else (False, t)))"

definition py_int :: "string \<Rightarrow> pyexc + int" where
  "py_int s =
     (let (neg, body) = split_sign (strip s)
      in if digit_run body
         then (let v = int (digits_value (filter (\<lambda>c. c \<noteq> CHR ''_'') body))
               in Inr (if neg then - v else v))
         else Inl ValueError)"

declare str_nat.simps [simp del]

subsection \<open>Digits\<close>

lemma of_char_digit_char: "d < 10 \<Longrightarrow> of_char (digit_char d) = 48 + d"
  by (simp add: digit_char_def)

lemma is_digit_digit_char [simp]: "d < 10 \<Longrightarrow> is_digit (digit_char d)"
  by (simp add: is_digit_def of_char_digit_char)

lemma digit_val_digit_char [simp]: "d < 10 \<Longrightarrow> digit_val (digit_char d) = d"
  by (simp add: digit_val_def of_char_digit_char)

lemma digit_char_not_special [simp]:
  "d < 10 \<Longrightarrow> digit_char d \<noteq> CHR ''_''"
  "d < 10 \<Longrightarrow> digit_char d \<noteq> CHR ''-''"
  "d < 10 \<Longrightarrow> digit_char d \<noteq> CHR ''+''"
  "d < 10 \<Longrightarrow> digit_char d \<noteq> CHR '' ''"
  "d < 10 \<Longrightarrow> \<not> py_isspace (digit_char d)"
  by (auto simp: py_isspace_def dest!: arg_cong [where f = "of_char :: char \<Rightarrow> nat"]
           simp: of_char_digit_char)

lemma digit_char_eval [eval_simps]:
  "digit_char 0 = CHR ''0''" "digit_char 1 = CHR ''1''" "digit_char 2 = CHR ''2''"
  "digit_char 3 = CHR ''3''" "digit_char 4 = CHR ''4''" "digit_char 5 = CHR ''5''"
  "digit_char 6 = CHR ''6''" "digit_char 7 = CHR ''7''" "digit_char 8 = CHR ''8''"
  "digit_char 9 = CHR ''9''" "digit_char (Suc 0) = CHR ''1''"
  by code_simp+

lemma str_nat_nonempty [simp]: "str_nat n \<noteq> []"
  by (subst str_nat.simps) simp

lemma str_nat_chars: "c \<in> set (str_nat n) \<Longrightarrow> \<exists>d < 10. c = digit_char d"
proof (induction n rule: str_nat.induct)
  case (1 n)
  show ?case
  proof (cases "n < 10")
    case True
    with "1.prems" show ?thesis by (subst (asm) str_nat.simps) auto
  next
    case False
    with "1.prems" have "c \<in> set (str_nat (n div 10)) \<or> c = digit_char (n mod 10)"
      by (subst (asm) str_nat.simps) auto
    then show ?thesis
    proof
      assume "c \<in> set (str_nat (n div 10))"
      with False "1.IH" show ?thesis by blast
    next
      assume "c = digit_char (n mod 10)"
      then show ?thesis by (intro exI [of _ "n mod 10"]) simp
    qed
  qed
qed

lemma str_nat_all_digits: "\<forall>c \<in> set (str_nat n). is_digit c \<and> c \<noteq> CHR ''_''"
  by (auto dest!: str_nat_chars)

lemma digits_value_snoc [simp]:
  "digits_value (ds @ [c]) = 10 * digits_value ds + digit_val c"
  by (simp add: digits_value_def)

lemma digits_value_str_nat: "digits_value (str_nat n) = n"
proof (induction n rule: str_nat.induct)
  case (1 n)
  then show ?case
    by (subst str_nat.simps) (simp add: digits_value_def)
qed

lemma digit_run_all_digits:
  "xs \<noteq> [] \<Longrightarrow> \<forall>c \<in> set xs. is_digit c \<and> c \<noteq> CHR ''_'' \<Longrightarrow> digit_run xs"
proof (induction xs rule: digit_run.induct)
  case (2 c cs)
  then show ?case by (cases cs) auto
qed simp

lemma digit_run_str_nat: "digit_run (str_nat n)"
  by (rule digit_run_all_digits) (simp_all add: str_nat_all_digits)

lemma str_nat_ends_not_space:
  "\<not> py_isspace (hd (str_nat n))" "\<not> py_isspace (last (str_nat n))"
  using str_nat_chars [OF hd_in_set [OF str_nat_nonempty]]
    str_nat_chars [OF last_in_set [OF str_nat_nonempty]]
  by (metis digit_char_not_special(5))+

lemma str_int_no_space:
  "dropWhile py_isspace (str_int i) = str_int i"
  "dropWhile py_isspace (rev (str_int i)) = rev (str_int i)"
  using str_nat_ends_not_space
  by (auto simp: dropWhile_eq_self_iff str_int_def py_isspace_def hd_rev)

lemma split_sign_str_nat: "split_sign (str_nat n) = (False, str_nat n)"
proof -
  obtain c cs where cs: "str_nat n = c # cs" by (cases "str_nat n") auto
  then have "c \<in> set (str_nat n)" by simp
  then obtain d where "d < 10" "c = digit_char d" using str_nat_chars by blast
  then have "c \<noteq> CHR ''-''" "c \<noteq> CHR ''+''" by simp_all
  with cs show ?thesis by (simp add: split_sign_def)
qed

lemma strip_str_int: "strip (str_int i) = str_int i"
  by (simp add: strip_def str_int_no_space)

lemma filter_str_nat: "filter (\<lambda>c. c \<noteq> CHR ''_'') (str_nat n) = str_nat n"
  using str_nat_all_digits [of n] by (simp add: filter_id_conv)

text \<open>C12: \<open>int(str(i)) == i\<close>: the decimal text the script writes for a
  number (the header's \<open>n\<close> and \<open>m\<close>, each literal) reads back as that
  number.\<close>

theorem py_int_str_int: "py_int (str_int i) = Inr i"
proof (cases "i < 0")
  case True
  then have "split_sign (str_int i) = (True, str_nat (nat (- i)))"
    by (simp add: str_int_def split_sign_def)
  with True show ?thesis
    by (simp add: py_int_def strip_str_int digit_run_str_nat filter_str_nat digits_value_str_nat)
next
  case False
  then have "split_sign (str_int i) = (False, str_nat (nat i))"
    by (simp add: str_int_def split_sign_str_nat)
  with False show ?thesis
    by (simp add: py_int_def strip_str_int digit_run_str_nat filter_str_nat digits_value_str_nat)
qed

end
