(* ===== verification/PyRandom.thy ===== *)
theory PyRandom
  imports Prelude
begin

text \<open>
  The methods of CPython's \<open>random.Random\<close> that the generator script calls,
  over any 32-bit word source \<open>nxt :: 's rng\<close> (CPython's
  \<open>genrand_uint32\<close>; theory \<open>MersenneTwister\<close> supplies it):
  \<^item> \<open>getrandbits(k)\<close> (\<open>_randommodule.c\<close>): the top \<open>k\<close> bits of one word for
    \<open>k \<le> 32\<close>, otherwise \<open>(k-1) div 32 + 1\<close> words, least significant first,
    the last one shifted down to the remaining bits;
  \<^item> \<open>_randbelow(n)\<close> (\<open>random.py\<close>, \<open>_randbelow_with_getrandbits\<close>):
    rejection sampling of \<open>getrandbits(n.bit_length())\<close> until the value is
    below \<open>n\<close>; the loop need not end for an arbitrary word source, so it is a
    \<^theory_text>\<open>partial_function (option)\<close>;
  \<^item> \<open>randrange(start, stop)\<close> with step 1: \<open>ValueError\<close> on an empty range,
    otherwise \<open>start + _randbelow(stop - start)\<close>;
  \<^item> \<open>random()\<close>: \<open>(a*67108864.0 + b) * (1.0/9007199254740992.0)\<close> with
    \<open>a = genrand>>5\<close>, \<open>b = genrand>>6\<close>. Both products and the sum are exact
    in IEEE double precision (all values are integers below \<open>2^53\<close> scaled by a
    power of two), so the real number computed here is the float CPython
    returns.
\<close>

subsection \<open>Definitions\<close>

text \<open>\<open>int.bit_length()\<close> of a natural number.\<close>

fun bit_length :: "nat \<Rightarrow> nat" where
  "bit_length n = (if n = 0 then 0 else Suc (bit_length (n div 2)))"

text \<open>The word loop of \<open>getrandbits\<close> for \<open>k > 32\<close>: \<open>w\<close> words remain,
  \<open>k\<close> bits remain to fill.\<close>

fun getrandbits_words :: "'s rng \<Rightarrow> nat \<Rightarrow> nat \<Rightarrow> 's \<Rightarrow> nat \<times> 's" where
  "getrandbits_words nxt 0 k s = (0, s)"
| "getrandbits_words nxt (Suc w) k s =
     (let (r, s1) = nxt s;
          r' = (if k < 32 then drop_bit (32 - k) r else r);
          (hi, s2) = getrandbits_words nxt w (k - 32) s1
      in (unat r' + 2 ^ 32 * hi, s2))"

definition getrandbits :: "'s rng \<Rightarrow> nat \<Rightarrow> 's \<Rightarrow> nat \<times> 's" where
  "getrandbits nxt k s =
     (if k = 0 then (0, s)
      else if k \<le> 32 then (let (r, s') = nxt s in (unat (drop_bit (32 - k) r), s'))
      else getrandbits_words nxt ((k - 1) div 32 + 1) k s)"

text \<open>\<open>while r >= n: r = getrandbits(k)\<close>.\<close>

partial_function (option) randbelow_loop :: "'s rng \<Rightarrow> nat \<Rightarrow> nat \<Rightarrow> nat \<Rightarrow> 's \<Rightarrow> (nat \<times> 's) option" where
  "randbelow_loop nxt n k r s =
     (if n \<le> r then (case getrandbits nxt k s of (r', s') \<Rightarrow> randbelow_loop nxt n k r' s')
      else Some (r, s))"

definition randbelow :: "'s rng \<Rightarrow> nat \<Rightarrow> 's \<Rightarrow> (nat \<times> 's) option" where
  "randbelow nxt n s =
     (let k = bit_length n in
      case getrandbits nxt k s of (r, s') \<Rightarrow> randbelow_loop nxt n k r s')"

definition randrange :: "'s rng \<Rightarrow> int \<Rightarrow> int \<Rightarrow> 's \<Rightarrow> (int, 's) pyres" where
  "randrange nxt start stop s =
     (let width = stop - start in
      if 0 < width
      then map_option (\<lambda>(r, s'). (Inr (start + int r), s')) (randbelow nxt (nat width) s)
      else Some (Inl ValueError, s))"

definition py_random :: "'s rng \<Rightarrow> 's \<Rightarrow> real \<times> 's" where
  "py_random nxt s =
     (let (a, s1) = nxt s; (b, s2) = nxt s1
      in ((real (unat (drop_bit 5 a)) * 67108864 + real (unat (drop_bit 6 b)))
            * (1 / 9007199254740992), s2))"

declare bit_length.simps [simp del]

subsection \<open>Lemmas\<close>

lemmas random_eval [eval_simps] =
  randrange_def randbelow_def randbelow_loop.simps getrandbits_def bit_length.simps py_random_def

lemma real_div_2p53_lt_half: "(x::real) / 9007199254740992 < 1 / 2 \<longleftrightarrow> x < 4503599627370496"
  by (simp add: pos_divide_less_eq)

lemma getrandbits_small:
  "0 < k \<Longrightarrow> k \<le> 32 \<Longrightarrow>
   getrandbits nxt k s = (unat (drop_bit (32 - k) (fst (nxt s))), snd (nxt s))"
  by (simp add: getrandbits_def split: prod.split)

lemma bit_length_less: "n < 2 ^ bit_length n"
proof (induction n rule: bit_length.induct)
  case (1 n)
  then show ?case by (subst bit_length.simps) auto
qed

lemma bit_length_le: "n < 2 ^ m \<Longrightarrow> bit_length n \<le> m"
proof (induction n arbitrary: m rule: bit_length.induct)
  case (1 n)
  show ?case
  proof (cases "n = 0")
    case False
    with "1.prems" obtain m' where m: "m = Suc m'" by (cases m) auto
    with "1.prems" have "n div 2 < 2 ^ m'" by auto
    with False "1.IH" m show ?thesis by (subst bit_length.simps) simp
  qed (simp add: bit_length.simps)
qed

lemma bit_length_pos: "0 < n \<Longrightarrow> 0 < bit_length n"
  by (subst bit_length.simps) simp

lemma randbelow_loop_first:
  assumes k: "0 < k" "k \<le> 32"
    and acc: "unat (drop_bit (32 - k) (rng_stream nxt s j)) < n"
    and rej: "\<forall>i<j. n \<le> unat (drop_bit (32 - k) (rng_stream nxt s i))"
    and r: "n \<le> r"
  shows "randbelow_loop nxt n k r s =
           Some (unat (drop_bit (32 - k) (rng_stream nxt s j)), rng_iter nxt (Suc j) s)"
  using acc rej r
proof (induction j arbitrary: s r)
  case 0
  then show ?case
    by (simp add: randbelow_loop.simps [of nxt n k r s] randbelow_loop.simps [of nxt n k _ "snd (nxt s)"]
        getrandbits_small k)
next
  case (Suc j)
  have step: "randbelow_loop nxt n k r s =
      randbelow_loop nxt n k (unat (drop_bit (32 - k) (fst (nxt s)))) (snd (nxt s))"
    using Suc.prems(3) by (simp add: randbelow_loop.simps [of nxt n k r s] getrandbits_small k)
  have "n \<le> unat (drop_bit (32 - k) (fst (nxt s)))"
    using Suc.prems(2) by (metis rng_stream_0 zero_less_Suc)
  moreover have "\<forall>i<j. n \<le> unat (drop_bit (32 - k) (rng_stream nxt (snd (nxt s)) i))"
    using Suc.prems(2) by (auto simp flip: rng_stream_Suc)
  moreover have "unat (drop_bit (32 - k) (rng_stream nxt (snd (nxt s)) j)) < n"
    using Suc.prems(1) by (simp add: rng_stream_Suc)
  ultimately show ?case
    using Suc.IH step by (simp add: rng_stream_Suc)
qed

lemma randbelow_loop_returns:
  assumes ret: "randbelow_loop nxt n k r s = Some (v, s')"
    and k: "0 < k" "k \<le> 32"
  shows "v < n \<and> (r < n \<or> (\<exists>j. unat (drop_bit (32 - k) (rng_stream nxt s j)) < n))"
proof -
  have "0 < k \<longrightarrow> k \<le> 32 \<longrightarrow> fst (v, s') < n \<and>
      (r < n \<or> (\<exists>j. unat (drop_bit (32 - k) (rng_stream nxt s j)) < n))"
  proof (rule randbelow_loop.raw_induct [OF _ ret])
    fix f :: "'a rng \<Rightarrow> nat \<Rightarrow> nat \<Rightarrow> nat \<Rightarrow> 'a \<Rightarrow> (nat \<times> 'a) option"
      and nxt n k r s res
    assume IH: "\<And>nxt n k r s res. f nxt n k r s = Some res \<Longrightarrow> 0 < k \<longrightarrow> k \<le> 32 \<longrightarrow>
        fst res < n \<and> (r < n \<or> (\<exists>j. unat (drop_bit (32 - k) (rng_stream nxt s j)) < n))"
      and body: "(if n \<le> r then case getrandbits nxt k s of (r', s') \<Rightarrow> f nxt n k r' s'
                  else Some (r, s)) = Some res"
    show "0 < k \<longrightarrow> k \<le> 32 \<longrightarrow>
        fst res < n \<and> (r < n \<or> (\<exists>j. unat (drop_bit (32 - k) (rng_stream nxt s j)) < n))"
    proof (intro impI)
      assume k: "0 < k" "k \<le> 32"
      show "fst res < n \<and> (r < n \<or> (\<exists>j. unat (drop_bit (32 - k) (rng_stream nxt s j)) < n))"
      proof (cases "n \<le> r")
        case True
        with body k have "f nxt n k (unat (drop_bit (32 - k) (fst (nxt s)))) (snd (nxt s)) = Some res"
          by (simp add: getrandbits_small)
        from IH [OF this] k
        have "fst res < n \<and> (unat (drop_bit (32 - k) (rng_stream nxt s 0)) < n \<or>
            (\<exists>j. unat (drop_bit (32 - k) (rng_stream nxt s (Suc j))) < n))"
          by (simp add: rng_stream_Suc)
        then show ?thesis by blast
      next
        case False
        with body show ?thesis by auto
      qed
    qed
  qed
  with k show ?thesis by simp
qed

lemma randbelow_as_loop: "randbelow nxt n s = randbelow_loop nxt n (bit_length n) n s"
  by (simp add: randbelow_def randbelow_loop.simps [of nxt n _ n s] split: prod.split)


lemma randbelow_bits: "0 < n \<Longrightarrow> n < 2 ^ 32 \<Longrightarrow> 0 < bit_length n \<and> bit_length n \<le> 32"
  by (simp add: bit_length_pos bit_length_le)

lemma randbelow_returns:
  assumes "randbelow nxt n s = Some (v, s')" "0 < n" "n < 2 ^ 32"
  shows "v < n \<and> (\<exists>j. unat (drop_bit (32 - bit_length n) (rng_stream nxt s j)) < n)"
proof -
  have k: "0 < bit_length n" "bit_length n \<le> 32"
    using randbelow_bits [OF assms(2,3)] by simp_all
  have "randbelow_loop nxt n (bit_length n) n s = Some (v, s')"
    using assms(1) by (simp add: randbelow_as_loop)
  from randbelow_loop_returns [OF this k] show ?thesis by simp
qed

text \<open>C4: \<open>_randbelow(n)\<close> for \<open>0 < n < 2^32\<close> returns the top
  \<open>n.bit_length()\<close> bits of the first random word whose top bits are below
  \<open>n\<close>, and leaves the generator just after that word.\<close>

theorem randbelow_first_accepted:
  assumes "0 < n" "n < 2 ^ 32"
    and "unat (drop_bit (32 - bit_length n) (rng_stream nxt s j)) < n"
    and "\<forall>i<j. n \<le> unat (drop_bit (32 - bit_length n) (rng_stream nxt s i))"
  shows "randbelow nxt n s =
           Some (unat (drop_bit (32 - bit_length n) (rng_stream nxt s j)), rng_iter nxt (Suc j) s)"
proof -
  have k: "0 < bit_length n" "bit_length n \<le> 32"
    using randbelow_bits [OF assms(1,2)] by simp_all
  show ?thesis
    unfolding randbelow_as_loop by (rule randbelow_loop_first [OF k assms(3,4) order_refl])
qed

text \<open>C5: the rejection loop of \<open>_randbelow(n)\<close> returns exactly when some
  word of the stream is accepted; otherwise it runs forever.\<close>

theorem randbelow_terminates_iff:
  assumes "0 < n" "n < 2 ^ 32"
  shows "randbelow nxt n s \<noteq> None \<longleftrightarrow>
           (\<exists>j. unat (drop_bit (32 - bit_length n) (rng_stream nxt s j)) < n)"
proof
  assume "randbelow nxt n s \<noteq> None"
  then obtain v s' where "randbelow nxt n s = Some (v, s')" by auto
  from randbelow_returns [OF this assms]
  show "\<exists>j. unat (drop_bit (32 - bit_length n) (rng_stream nxt s j)) < n"
    by (rule conjunct2)
next
  let ?acc = "\<lambda>j. unat (drop_bit (32 - bit_length n) (rng_stream nxt s j)) < n"
  assume ex: "\<exists>j. ?acc j"
  define j where "j = (LEAST j. ?acc j)"
  have acc: "?acc j"
    unfolding j_def using ex by (rule LeastI_ex)
  have rej: "\<forall>i<j. \<not> ?acc i"
    unfolding j_def using not_less_Least by blast
  from rej have rej': "\<forall>i<j. n \<le> unat (drop_bit (32 - bit_length n) (rng_stream nxt s i))"
    by (simp add: not_less)
  have k: "0 < bit_length n" "bit_length n \<le> 32"
    using randbelow_bits [OF assms] by simp_all
  show "randbelow nxt n s \<noteq> None"
    unfolding randbelow_as_loop using randbelow_loop_first [OF k acc rej' order_refl] by simp
qed

theorem randbelow_first_accepted_witness:
  "randbelow demo_rng 3 0 = Some (0, 1)"
proof -
  have "bit_length 3 = 2" by (simp add: bit_length.simps)
  then show ?thesis
    using randbelow_first_accepted [of 3 demo_rng 0 0] by (simp add: demo_rng_def rng_stream_def)
qed

theorem randbelow_terminates_iff_witness:
  "0 < (3::nat) \<and> 3 < (2::nat) ^ 32 \<and>
   (randbelow demo_rng 3 0 \<noteq> None \<longleftrightarrow>
      (\<exists>j. unat (drop_bit (32 - bit_length 3) (rng_stream demo_rng 0 j)) < 3))"
  using randbelow_terminates_iff [of 3 demo_rng 0] by simp

lemma randrange_empty: "stop \<le> start \<Longrightarrow> randrange nxt start stop s = Some (Inl ValueError, s)"
  by (simp add: randrange_def)

lemma randbelow_loop_lt:
  assumes ret: "randbelow_loop nxt n k r s = Some (v, s')"
  shows "v < n"
proof -
  have "fst (v, s') < n"
  proof (rule randbelow_loop.raw_induct [OF _ ret])
    fix f :: "'a rng \<Rightarrow> nat \<Rightarrow> nat \<Rightarrow> nat \<Rightarrow> 'a \<Rightarrow> (nat \<times> 'a) option"
      and nxt n k r s res
    assume IH: "\<And>nxt n k r s res. f nxt n k r s = Some res \<Longrightarrow> fst res < n"
      and body: "(if n \<le> r then case getrandbits nxt k s of (r', s') \<Rightarrow> f nxt n k r' s'
                  else Some (r, s)) = Some res"
    show "fst res < n"
    proof (cases "n \<le> r")
      case True
      with body show ?thesis by (auto split: prod.splits intro: IH)
    next
      case False
      with body show ?thesis by auto
    qed
  qed
  then show ?thesis by simp
qed

lemma randrange_in_range:
  assumes "randrange nxt start stop s = Some (Inr x, s')"
  shows "start \<le> x \<and> x < stop"
proof -
  have w: "0 < stop - start"
  proof (rule ccontr)
    assume "\<not> 0 < stop - start"
    with assms show False by (simp add: randrange_def)
  qed
  with assms obtain v where v: "randbelow nxt (nat (stop - start)) s = Some (v, s')"
    and x: "x = start + int v"
    by (auto simp: randrange_def)
  from v have "v < nat (stop - start)"
    by (simp add: randbelow_def Let_def randbelow_loop_lt split: prod.splits)
  with x w show ?thesis by simp
qed

text \<open>C11: \<open>randrange(start, stop)\<close> raises \<open>ValueError\<close> on every empty
  range (\<open>stop \<le> start\<close>), returning at once and consuming no random word; a
  call that returns a value returns one in \<open>[start, stop)\<close>, and an error
  only on an empty range.\<close>

theorem randrange_result:
  "(stop \<le> start \<longrightarrow> randrange nxt start stop s = Some (Inl ValueError, s)) \<and>
   (randrange nxt start stop s = Some (r, s') \<longrightarrow>
      (case r of Inl e \<Rightarrow> e = ValueError \<and> stop \<le> start \<and> s' = s
               | Inr x \<Rightarrow> start \<le> x \<and> x < stop))"
proof (intro conjI impI)
  show "randrange nxt start stop s = Some (Inl ValueError, s)" if "stop \<le> start"
    using that by (rule randrange_empty)
next
  assume ret: "randrange nxt start stop s = Some (r, s')"
  show "case r of Inl e \<Rightarrow> e = ValueError \<and> stop \<le> start \<and> s' = s
                | Inr x \<Rightarrow> start \<le> x \<and> x < stop"
  proof (cases r)
    case (Inl e)
    have "stop \<le> start"
    proof (rule ccontr)
      assume "\<not> stop \<le> start"
      with ret Inl show False by (auto simp: randrange_def)
    qed
    with ret Inl show ?thesis by (simp add: randrange_empty)
  next
    case (Inr x)
    with ret show ?thesis by (simp add: randrange_in_range)
  qed
qed

theorem randrange_result_witness:
  "randrange demo_rng 1 1 5 = Some (Inl ValueError, 5) \<and>
   randrange demo_rng 1 4 0 = Some (Inr 1, 1) \<and> 1 \<le> (1::int) \<and> (1::int) < 4"
proof -
  have ev: "randrange demo_rng 1 4 0 = Some (Inr 1, 1)"
    by (simp add: eval_simps cong: eval_cong)
  have "randrange demo_rng 1 1 5 = Some (Inl ValueError, 5)"
    using randrange_result [of 1 1 demo_rng 5] by simp
  moreover have "1 \<le> (1::int) \<and> (1::int) < 4"
    using randrange_result [of 4 1 demo_rng 0 "Inr 1" 1] ev by simp
  ultimately show ?thesis using ev by simp
qed

text \<open>C10: \<open>random() < 0.5\<close> holds exactly when the top bit of the first of
  the two words \<open>random()\<close> consumes is clear, so the sign of a literal is that
  bit.\<close>

lemma py_random_lt_half:
  "fst (py_random nxt s) < 1 / 2 \<longleftrightarrow> unat (fst (nxt s)) < 2 ^ 31"
proof -
  obtain a s1 where a: "nxt s = (a, s1)" by fastforce
  obtain b s2 where b: "nxt s1 = (b, s2)" by fastforce
  define A where "A = unat (drop_bit 5 a)"
  define B where "B = unat (drop_bit 6 b)"
  have B: "B < 2 ^ 26"
    using unat_u32_less [of b] by (simp add: B_def unat_drop_bit_div less_mult_imp_div_less)
  have A: "A = unat a div 32"
    by (simp add: A_def unat_drop_bit_div)
  have "fst (py_random nxt s) = real (A * 67108864 + B) / 9007199254740992"
    by (simp add: py_random_def a b A_def B_def)
  also have "\<dots> < 1 / 2 \<longleftrightarrow> real (A * 67108864 + B) < 4503599627370496"
    by (rule real_div_2p53_lt_half)
  also have "\<dots> \<longleftrightarrow> A * 67108864 + B < 4503599627370496"
    by (simp only: of_nat_less_numeral_iff)
  also have "\<dots> \<longleftrightarrow> A < 2 ^ 26"
    using B by auto
  also have "\<dots> \<longleftrightarrow> unat a < 2 ^ 31"
    by (simp add: A div_less_iff_less_mult)
  finally show ?thesis by (simp add: a)
qed

lemma unat_drop_bit_bound: "k \<le> 32 \<Longrightarrow> unat (drop_bit (32 - k) (r :: u32)) < 2 ^ k"
proof -
  assume k: "k \<le> 32"
  have "unat r < 2 ^ k * 2 ^ (32 - k)"
    using unat_u32_less [of r] k by (simp flip: power_add)
  then show ?thesis by (simp add: unat_drop_bit_div div_less_iff_less_mult)
qed

lemma getrandbits_words_bound:
  "k \<le> 32 * w \<Longrightarrow> fst (getrandbits_words nxt w k s) < 2 ^ k"
proof (induction w arbitrary: k s)
  case 0
  then show ?case by simp
next
  case (Suc w)
  obtain r s1 where r: "nxt s = (r, s1)" by (cases "nxt s")
  obtain hi s2 where h: "getrandbits_words nxt w (k - 32) s1 = (hi, s2)"
    by (cases "getrandbits_words nxt w (k - 32) s1")
  have hi: "hi < 2 ^ (k - 32)" using Suc.IH [of "k - 32" s1] Suc.prems h by simp
  show ?case
  proof (cases "k < 32")
    case True
    then have "hi = 0" using hi by simp
    moreover have "unat (drop_bit (32 - k) r) < 2 ^ k"
      using True by (simp add: unat_drop_bit_bound)
    ultimately show ?thesis using True r h by simp
  next
    case False
    have "unat r + 2 ^ 32 * hi \<le> (2 ^ 32 - 1) + 2 ^ 32 * (2 ^ (k - 32) - 1)"
      using unat_u32_less [of r] hi by (intro add_mono mult_left_mono) simp_all
    also have "\<dots> < 2 ^ k"
    proof -
      have "k = 32 + (k - 32)" using False by simp
      then have "(2::nat) ^ k = 2 ^ 32 * 2 ^ (k - 32)" by (metis power_add)
      moreover have "(1::nat) \<le> 2 ^ (k - 32)" by simp
      ultimately show ?thesis by (simp add: algebra_simps)
    qed
    finally show ?thesis using False r h by simp
  qed
qed

text \<open>C27: \<open>getrandbits(k)\<close> returns a number below \<open>2^k\<close>: \<open>k\<close> random bits,
  for every \<open>k\<close> and every word source.\<close>

theorem getrandbits_bound: "fst (getrandbits nxt k s) < 2 ^ k"
proof -
  consider "k = 0" | "0 < k" "k \<le> 32" | "32 < k" by linarith
  then show ?thesis
  proof cases
    case 1
    then show ?thesis by (simp add: getrandbits_def)
  next
    case 2
    then show ?thesis by (simp add: getrandbits_small unat_drop_bit_bound)
  next
    case 3
    have "k \<le> 32 * ((k - 1) div 32 + 1)"
      using div_mult_mod_eq [of "k - 1" 32] mod_less_divisor [of 32 "k - 1"] by simp
    moreover have "getrandbits nxt k s = getrandbits_words nxt ((k - 1) div 32 + 1) k s"
      using 3 by (simp add: getrandbits_def)
    ultimately show ?thesis by (simp only: getrandbits_words_bound)
  qed
qed

end
