(* ===== verification/PySet.thy ===== *)
theory PySet
  imports Prelude
begin

text \<open>
  CPython's \<open>set\<close> of \<open>int\<close>s (\<open>Objects/setobject.c\<close>), which the
  generator uses for one clause: \<open>set()\<close>, \<open>clause.add(lit)\<close>,
  \<open>len(clause)\<close> and iteration. The iteration order of a set, and so the order
  of the literals on a clause line of the output, is the order of the slots of
  its hash table. The model keeps the table as a list of slots (\<open>None\<close> for
  an unused slot), the counters \<open>fill\<close> and \<open>used\<close>, and follows
  \<open>set_add_entry\<close>: the probe sequence starts at \<open>hash & mask\<close>, scans
  \<open>LINEAR_PROBES\<close> further slots when they lie inside the table, and then
  jumps to \<open>(i*5 + 1 + perturb) & mask\<close> with \<open>perturb\<close> shifted right by
  \<open>PERTURB_SHIFT\<close>, all in 64-bit \<open>size_t\<close> arithmetic. A table filled to
  3/5 is resized (\<open>set_table_resize\<close>, \<open>set_insert_clean\<close>). The probe
  loops are \<^theory_text>\<open>while (1)\<close> in C, so they are \<^theory_text>\<open>partial_function (option)\<close>
  here. Deletion (dummy entries) is not modelled: the script never removes an
  element. The hash of an int is \<open>long_hash\<close>: the value modulo
  \<open>2^61 - 1\<close> with the sign of the value, \<open>-1\<close> being replaced by \<open>-2\<close>.
\<close>

subsection \<open>Definitions\<close>

definition PySet_MINSIZE :: nat where "PySet_MINSIZE = 8"
definition LINEAR_PROBES :: nat where "LINEAR_PROBES = 9"
definition PERTURB_SHIFT :: nat where "PERTURB_SHIFT = 5"
definition PyHASH_MODULUS :: int where "PyHASH_MODULUS = 2 ^ 61 - 1"

definition py_hash :: "int \<Rightarrow> int" where
  "py_hash v = (let h = sgn v * (\<bar>v\<bar> mod PyHASH_MODULUS) in if h = -1 then -2 else h)"

record pyset =
  table :: "int option list"
  fill :: nat
  used :: nat

definition set_new :: pyset where
  "set_new = \<lparr>table = replicate PySet_MINSIZE None, fill = 0, used = 0\<rparr>"

definition set_mask :: "pyset \<Rightarrow> u64" where
  "set_mask so = word_of_nat (length (table so) - 1)"

text \<open>The keys of a table in slot order: what \<open>for x in s\<close> yields.\<close>

fun keys_of :: "int option list \<Rightarrow> int list" where
  "keys_of [] = []"
| "keys_of (None # xs) = keys_of xs"
| "keys_of (Some k # xs) = k # keys_of xs"

definition set_iter :: "pyset \<Rightarrow> int list" where
  "set_iter so = keys_of (table so)"

definition set_len :: "pyset \<Rightarrow> nat" where
  "set_len so = used so"

datatype probe = Found_active | Found_unused nat

text \<open>The \<open>do { ... } while (probes--)\<close> scan of \<open>set_add_entry\<close> over
  \<open>c\<close> consecutive entries from slot \<open>j\<close>.\<close>

fun scan_entries :: "int option list \<Rightarrow> int \<Rightarrow> int \<Rightarrow> nat \<Rightarrow> nat \<Rightarrow> probe option" where
  "scan_entries tbl key h j 0 = None"
| "scan_entries tbl key h j (Suc c) =
     (case tbl ! j of
        None \<Rightarrow> Some (Found_unused j)
      | Some k \<Rightarrow> if py_hash k = h \<and> k = key then Some Found_active
                  else scan_entries tbl key h (Suc j) c)"

partial_function (option) add_probe ::
  "int option list \<Rightarrow> u64 \<Rightarrow> int \<Rightarrow> int \<Rightarrow> u64 \<Rightarrow> u64 \<Rightarrow> probe option" where
  "add_probe tbl msk key h i perturb =
     (case scan_entries tbl key h (unat i)
             (if unat i + LINEAR_PROBES \<le> unat msk then Suc LINEAR_PROBES else 1) of
        Some r \<Rightarrow> Some r
      | None \<Rightarrow>
          (let perturb' = drop_bit PERTURB_SHIFT perturb
           in add_probe tbl msk key h ((i * 5 + 1 + perturb') AND msk) perturb'))"

text \<open>\<open>set_insert_clean\<close>: the slot for a key known to be absent.\<close>

fun find_null :: "int option list \<Rightarrow> nat \<Rightarrow> nat \<Rightarrow> nat option" where
  "find_null tbl j 0 = None"
| "find_null tbl j (Suc c) = (if tbl ! j = None then Some j else find_null tbl (Suc j) c)"

partial_function (option) insert_clean_slot ::
  "int option list \<Rightarrow> u64 \<Rightarrow> u64 \<Rightarrow> u64 \<Rightarrow> nat option" where
  "insert_clean_slot tbl msk i perturb =
     (if tbl ! unat i = None then Some (unat i)
      else case (if unat i + LINEAR_PROBES \<le> unat msk
                 then find_null tbl (Suc (unat i)) LINEAR_PROBES else None) of
             Some j \<Rightarrow> Some j
           | None \<Rightarrow>
               (let perturb' = drop_bit PERTURB_SHIFT perturb
                in insert_clean_slot tbl msk ((i * 5 + 1 + perturb') AND msk) perturb'))"

definition set_insert_clean :: "int option list \<Rightarrow> u64 \<Rightarrow> int \<Rightarrow> int option list option" where
  "set_insert_clean tbl msk key =
     (let h = py_hash key
      in map_option (\<lambda>j. tbl[j := Some key])
           (insert_clean_slot tbl msk (word_of_int h AND msk) (word_of_int h)))"

text \<open>\<open>newsize = PySet_MINSIZE; while (newsize <= minused) newsize <<= 1;\<close>,
  with \<open>newsize = PySet_MINSIZE * 2^k\<close> after \<open>k\<close> shifts.\<close>

function resize_newsize :: "nat \<Rightarrow> nat \<Rightarrow> nat" where
  "resize_newsize k minused =
     (if PySet_MINSIZE * 2 ^ k \<le> minused then resize_newsize (Suc k) minused
      else PySet_MINSIZE * 2 ^ k)"
  by pat_completeness auto
termination
  by (relation "measure (\<lambda>(k, m). Suc m - PySet_MINSIZE * 2 ^ k)")
     (auto simp: PySet_MINSIZE_def intro!: diff_less_mono2)

text \<open>Reinsert the old keys, in the old table's slot order, into the new table.\<close>

fun reinsert :: "u64 \<Rightarrow> int list \<Rightarrow> int option list \<Rightarrow> int option list option" where
  "reinsert msk [] tbl = Some tbl"
| "reinsert msk (k # ks) tbl =
     (case set_insert_clean tbl msk k of
        None \<Rightarrow> None
      | Some tbl' \<Rightarrow> reinsert msk ks tbl')"

definition set_table_resize :: "pyset \<Rightarrow> nat \<Rightarrow> pyset option" where
  "set_table_resize so minused =
     (let newsize = resize_newsize 0 minused
      in map_option (\<lambda>tbl. so\<lparr>table := tbl, fill := used so\<rparr>)
           (reinsert (word_of_nat (newsize - 1)) (set_iter so) (replicate newsize None)))"

definition set_add_entry :: "pyset \<Rightarrow> int \<Rightarrow> pyset option" where
  "set_add_entry so key =
     (let h = py_hash key; msk = set_mask so
      in case add_probe (table so) msk key h (word_of_int h AND msk) (word_of_int h) of
           None \<Rightarrow> None
         | Some Found_active \<Rightarrow> Some so
         | Some (Found_unused j) \<Rightarrow>
             (let so' = so\<lparr>table := (table so)[j := Some key],
                           fill := Suc (fill so), used := Suc (used so)\<rparr>
              in if fill so' * 5 < unat msk * 3 then Some so'
                 else set_table_resize so'
                        (if 50000 < used so' then used so' * 2 else used so' * 4)))"

subsection \<open>Probe sequence and invariant of an 8-slot table\<close>

text \<open>
  \<open>probe_at msk h t\<close> is the slot index \<open>i\<close> of \<open>set_add_entry\<close> after \<open>t\<close>
  perturbation steps, with \<open>perturb\<close> equal to \<open>hash >> 5t\<close>. In a table of
  8 slots (\<open>mask = 7\<close>) no linear probing happens (\<open>i + 9 <= 7\<close> never holds),
  so the slots inspected are exactly \<open>probe_at 7 h 0, probe_at 7 h 1, ...\<close>. After
  13 shifts \<open>perturb\<close> is 0 and the index follows \<open>i \<mapsto> (5i+1) mod 8\<close>, a single
  cycle through all 8 slots (\<open>cyc8\<close>), so every slot is inspected within 20
  steps. \<open>small_wf\<close> is the invariant of a set of at most 8 slots: its keys are
  distinct and counted by \<open>used = fill\<close>, and every key sits in a slot its own probe
  sequence reaches within 20 steps without passing an unused slot.
\<close>

primrec probe_at :: "u64 \<Rightarrow> int \<Rightarrow> nat \<Rightarrow> u64" where
  "probe_at msk h 0 = word_of_int h AND msk"
| "probe_at msk h (Suc t) =
     (probe_at msk h t * 5 + 1 + drop_bit (PERTURB_SHIFT * Suc t) (word_of_int h)) AND msk"

definition cyc8 :: "nat \<Rightarrow> nat" where "cyc8 x = (5 * x + 1) mod 8"

fun orbit8 :: "nat \<Rightarrow> nat \<Rightarrow> nat list" where
  "orbit8 0 x = []"
| "orbit8 (Suc n) x = x # orbit8 n (cyc8 x)"

definition probe_stop :: "int option list \<Rightarrow> int \<Rightarrow> nat \<Rightarrow> bool" where
  "probe_stop tbl key t =
     (case tbl ! unat (probe_at 7 (py_hash key) t) of None \<Rightarrow> True | Some k \<Rightarrow> k = key)"

definition probe_result :: "int option list \<Rightarrow> int \<Rightarrow> nat \<Rightarrow> probe option" where
  "probe_result tbl key t =
     (case tbl ! unat (probe_at 7 (py_hash key) t) of
        None \<Rightarrow> Some (Found_unused (unat (probe_at 7 (py_hash key) t)))
      | Some _ \<Rightarrow> Some Found_active)"

definition slot_reached :: "int option list \<Rightarrow> nat \<Rightarrow> bool" where
  "slot_reached tbl j =
     (case tbl ! j of
        None \<Rightarrow> True
      | Some k \<Rightarrow> \<exists>t<20. unat (probe_at 7 (py_hash k) t) = j \<and>
                    (\<forall>t'<t. tbl ! unat (probe_at 7 (py_hash k) t') \<noteq> None))"

definition small_wf :: "pyset \<Rightarrow> bool" where
  "small_wf so \<longleftrightarrow>
     length (table so) = PySet_MINSIZE \<and> distinct (set_iter so) \<and>
     used so = length (set_iter so) \<and> fill so = used so \<and>
     (\<forall>j<PySet_MINSIZE. slot_reached (table so) j)"

subsection \<open>Lemmas\<close>

lemma replicate_8 [eval_simps]: "replicate 8 x = [x, x, x, x, x, x, x, x]"
  by (simp add: numeral_eq_Suc)

lemmas set_eval [eval_simps] =
  set_add_entry_def add_probe.simps set_len_def set_new_def set_mask_def py_hash_def
  PyHASH_MODULUS_def LINEAR_PROBES_def PERTURB_SHIFT_def PySet_MINSIZE_def set_iter_def

lemma word_le7_cases: "(x::u64) \<le> 7 \<Longrightarrow> x \<in> {0, 1, 2, 3, 4, 5, 6, 7}"
proof -
  assume "x \<le> 7"
  then have "unat x \<le> 7" by (simp add: word_le_nat_alt)
  then have u: "unat x \<in> {0, 1, 2, 3, 4, 5, 6, 7}" by auto
  have "x = of_nat (unat x)" by simp
  with u show ?thesis by (elim insertE emptyE) simp_all
qed

lemma probe_at_le7: "probe_at 7 h t \<le> 7"
  by (cases t) (simp_all add: word_and_le1)

lemma probe_at_late: "12 \<le> t \<Longrightarrow> probe_at 7 h (Suc t) = (probe_at 7 h t * 5 + 1) AND 7"
  by (simp add: PERTURB_SHIFT_def)

lemma probe_at_late_iter:
  "probe_at 7 h (12 + d) = ((\<lambda>y. (y * 5 + 1) AND 7) ^^ d) (probe_at 7 h 12)"
proof (induction d)
  case (Suc d)
  have "probe_at 7 h (12 + Suc d) = (probe_at 7 h (12 + d) * 5 + 1) AND 7"
    using probe_at_late [of "12 + d" h] by simp
  with Suc.IH show ?case by simp
qed simp

lemma orbit8_funpow: "y \<in> set (orbit8 n x) \<longleftrightarrow> (\<exists>d<n. (cyc8 ^^ d) x = y)"
proof (induction n arbitrary: x)
  case (Suc n)
  have "(\<exists>d<Suc n. (cyc8 ^^ d) x = y) \<longleftrightarrow> x = y \<or> (\<exists>d<n. (cyc8 ^^ d) (cyc8 x) = y)"
    by (simp add: Ex_less_Suc2 funpow_Suc_right del: funpow.simps)
  with Suc.IH show ?case by auto
qed simp

lemma orbit8_8: "orbit8 8 x = [x, cyc8 x, cyc8 (cyc8 x), cyc8 (cyc8 (cyc8 x)),
    cyc8 (cyc8 (cyc8 (cyc8 x))), cyc8 (cyc8 (cyc8 (cyc8 (cyc8 x)))),
    cyc8 (cyc8 (cyc8 (cyc8 (cyc8 (cyc8 x))))), cyc8 (cyc8 (cyc8 (cyc8 (cyc8 (cyc8 (cyc8 x))))))]"
  by (simp add: numeral_eq_Suc)

lemma cyc8_orbit: "x < 8 \<Longrightarrow> j < 8 \<Longrightarrow> \<exists>d<8. (cyc8 ^^ d) x = j"
proof -
  assume x: "x < 8" and j: "j < 8"
  have "x \<in> {0, 1, 2, 3, 4, 5, 6, 7}" using x by auto
  then have "set (orbit8 8 x) = {0, 1, 2, 3, 4, 5, 6, 7}"
    unfolding orbit8_8 by (elim insertE emptyE) (auto simp: cyc8_def)
  with j have "j \<in> set (orbit8 8 x)" by auto
  then show ?thesis by (simp add: orbit8_funpow)
qed

lemma unat_step_cyc8: "(x::u64) \<le> 7 \<Longrightarrow> unat ((x * 5 + 1) AND 7) = cyc8 (unat x)"
  by (drule word_le7_cases) (auto simp: cyc8_def)

lemma unat_probe_late:
  "unat (probe_at 7 h (12 + d)) = (cyc8 ^^ d) (unat (probe_at 7 h 12))"
proof (induction d)
  case (Suc d)
  have "probe_at 7 h (12 + Suc d) = (probe_at 7 h (12 + d) * 5 + 1) AND 7"
    using probe_at_late [of "12 + d" h] by simp
  then have "unat (probe_at 7 h (12 + Suc d)) = cyc8 (unat (probe_at 7 h (12 + d)))"
    by (simp add: unat_step_cyc8 probe_at_le7)
  with Suc.IH show ?case by simp
qed simp

lemma probe_cover: "j < 8 \<Longrightarrow> \<exists>t<20. unat (probe_at 7 h t) = j"
proof -
  assume j: "j < 8"
  have "unat (probe_at 7 h 12) < 8"
    using probe_at_le7 [of h 12] by (simp add: word_le_nat_alt)
  from cyc8_orbit [OF this j] obtain d where "d < 8" "(cyc8 ^^ d) (unat (probe_at 7 h 12)) = j"
    by blast
  then show ?thesis
    using unat_probe_late [of h d] by (intro exI [of _ "12 + d"]) simp
qed

lemma unat_probe_lt8: "unat (probe_at 7 h t) < 8"
  using probe_at_le7 [of h t] by (simp add: word_le_nat_alt)

lemma add_probe_step8:
  assumes "length tbl = 8"
  shows "add_probe tbl 7 key h (probe_at 7 h t) (drop_bit (PERTURB_SHIFT * t) (word_of_int h)) =
    (case tbl ! unat (probe_at 7 h t) of
       None \<Rightarrow> Some (Found_unused (unat (probe_at 7 h t)))
     | Some k \<Rightarrow> if py_hash k = h \<and> k = key then Some Found_active
                 else add_probe tbl 7 key h (probe_at 7 h (Suc t))
                        (drop_bit (PERTURB_SHIFT * Suc t) (word_of_int h)))"
proof -
  have "\<not> unat (probe_at 7 h t) + LINEAR_PROBES \<le> unat (7::u64)"
    by (simp add: LINEAR_PROBES_def)
  moreover have "drop_bit PERTURB_SHIFT (drop_bit (PERTURB_SHIFT * t) (word_of_int h) :: u64) =
      drop_bit (PERTURB_SHIFT * Suc t) (word_of_int h)"
    by (simp add: drop_bit_drop_bit PERTURB_SHIFT_def)
  ultimately show ?thesis
    by (subst add_probe.simps) (auto simp: Let_def split: option.split)
qed

lemma add_probe_run8:
  assumes len: "length tbl = 8"
    and stop: "probe_stop tbl key (t + d)"
    and pass: "\<forall>e<d. \<not> probe_stop tbl key (t + e)"
  shows "add_probe tbl 7 key (py_hash key) (probe_at 7 (py_hash key) t)
           (drop_bit (PERTURB_SHIFT * t) (word_of_int (py_hash key))) = probe_result tbl key (t + d)"
  using stop pass
proof (induction d arbitrary: t)
  case 0
  then show ?case
    by (simp add: add_probe_step8 [OF len] probe_stop_def probe_result_def split: option.splits)
next
  case (Suc d)
  from Suc.prems(2) have "\<not> probe_stop tbl key t" by (metis add_0_right zero_less_Suc)
  have stop': "probe_stop tbl key (Suc t + d)" using Suc.prems(1) by simp
  have pass': "\<forall>e<d. \<not> probe_stop tbl key (Suc t + e)"
    using Suc.prems(2) by (metis Suc_less_eq add_Suc_shift add_Suc)
  from \<open>\<not> probe_stop tbl key t\<close>
  have "add_probe tbl 7 key (py_hash key) (probe_at 7 (py_hash key) t)
           (drop_bit (PERTURB_SHIFT * t) (word_of_int (py_hash key))) =
      add_probe tbl 7 key (py_hash key) (probe_at 7 (py_hash key) (Suc t))
           (drop_bit (PERTURB_SHIFT * Suc t) (word_of_int (py_hash key)))"
    by (auto simp: add_probe_step8 [OF len] probe_stop_def simp del: probe_at.simps split: option.splits)
  also have "\<dots> = probe_result tbl key (Suc t + d)"
    by (rule Suc.IH [OF stop' pass'])
  also have "\<dots> = probe_result tbl key (t + Suc d)"
    by simp
  finally show ?case .
qed

lemma keys_of_update_None:
  "j < length xs \<Longrightarrow> xs ! j = None \<Longrightarrow>
   \<exists>ys zs. keys_of xs = ys @ zs \<and> keys_of (xs[j := Some k]) = ys @ k # zs"
proof (induction xs arbitrary: j)
  case (Cons x xs)
  show ?case
  proof (cases j)
    case 0
    with Cons.prems show ?thesis by (intro exI [of _ "[]"] exI [of _ "keys_of xs"]) simp
  next
    case (Suc i)
    have "i < length xs" "xs ! i = None" using Cons.prems Suc by auto
    then obtain ys zs where
      yz: "keys_of xs = ys @ zs" "keys_of (xs[i := Some k]) = ys @ k # zs"
      using Cons.IH by blast
    show ?thesis
    proof (cases x)
      case None
      with Suc yz show ?thesis by (intro exI [of _ ys] exI [of _ zs]) simp
    next
      case (Some a)
      with Suc yz show ?thesis by (intro exI [of _ "a # ys"] exI [of _ zs]) simp
    qed
  qed
qed simp

lemma set_keys_of: "set (keys_of xs) = {k. Some k \<in> set xs}"
  by (induction xs rule: keys_of.induct) auto

lemma in_keys_of: "k \<in> set (keys_of xs) \<longleftrightarrow> (\<exists>j<length xs. xs ! j = Some k)"
  by (simp add: set_keys_of in_set_conv_nth eq_commute)

lemma keys_of_length: "length (keys_of xs) = length (filter (\<lambda>x. x \<noteq> None) xs)"
  by (induction xs rule: keys_of.induct) simp_all

lemma keys_of_has_None:
  assumes "length (keys_of xs) < length xs"
  shows "\<exists>j<length xs. xs ! j = None"
proof -
  have "None \<in> set xs"
  proof (rule ccontr)
    assume "None \<notin> set xs"
    then have "\<forall>x\<in>set xs. x \<noteq> None"
    proof (intro ballI notI)
      fix x assume "None \<notin> set xs" "x \<in> set xs" "x = None"
      then show False by simp
    qed
    then have "filter (\<lambda>x. x \<noteq> None) xs = xs" by (rule filter_True)
    with assms show False by (simp add: keys_of_length)
  qed
  then show ?thesis by (simp add: in_set_conv_nth eq_commute)
qed

lemma update_keeps_used:
  "tbl ! i \<noteq> None \<Longrightarrow> tbl[j := Some k] ! i \<noteq> None"
  by (cases "j < length tbl") (auto simp: nth_list_update list_update_beyond)

lemma keys_of_replicate_None [simp]: "keys_of (replicate n None) = []"
  by (induction n) simp_all

lemma slot_reached_update:
  assumes "j' \<noteq> j" "slot_reached tbl j'"
  shows "slot_reached (tbl[j := Some k]) j'"
  using assms update_keeps_used [of tbl _ j k]
  by (auto simp: slot_reached_def nth_list_update split: option.splits)

lemma small_wf_set_new: "small_wf set_new"
  by (simp add: small_wf_def set_new_def set_iter_def slot_reached_def PySet_MINSIZE_def)

lemma probe_stop_exists:
  assumes wf: "small_wf so" and u: "used so \<le> 3"
  shows "\<exists>t<20. probe_stop (table so) key t"
proof (cases "key \<in> set (set_iter so)")
  case True
  then obtain j where j: "j < 8" "table so ! j = Some key"
    using wf by (auto simp: set_iter_def in_keys_of small_wf_def PySet_MINSIZE_def)
  with wf have "slot_reached (table so) j" by (simp add: small_wf_def PySet_MINSIZE_def)
  with j obtain t where "t < 20" "unat (probe_at 7 (py_hash key) t) = j"
    by (auto simp: slot_reached_def)
  with j show ?thesis by (auto simp: probe_stop_def)
next
  case False
  have "length (keys_of (table so)) < length (table so)"
    using wf u by (simp add: small_wf_def set_iter_def PySet_MINSIZE_def)
  from keys_of_has_None [OF this] obtain j where "j < length (table so)" "table so ! j = None"
    by blast
  with wf have j: "j < 8" "table so ! j = None" by (simp_all add: small_wf_def PySet_MINSIZE_def)
  from probe_cover [OF j(1)] obtain t where "t < 20" "unat (probe_at 7 (py_hash key) t) = j"
    by blast
  with j show ?thesis by (auto simp: probe_stop_def)
qed

lemma first_probe_stop:
  assumes "small_wf so" "used so \<le> 3"
  obtains t where "t < 20" "probe_stop (table so) key t" "\<forall>e<t. \<not> probe_stop (table so) key e"
proof -
  let ?P = "probe_stop (table so) key"
  from probe_stop_exists [OF assms] obtain t0 where t0: "t0 < 20" "?P t0" by blast
  define t where "t = (LEAST t. ?P t)"
  have "?P t" unfolding t_def using t0(2) by (rule LeastI)
  moreover have "t \<le> t0" unfolding t_def using t0(2) by (rule Least_le)
  moreover have "\<forall>e<t. \<not> ?P e" unfolding t_def using not_less_Least by blast
  ultimately show ?thesis using t0(1) by (intro that) simp_all
qed

lemma set_add_entry_probe:
  assumes wf: "small_wf so" and t: "probe_stop (table so) key t" "\<forall>e<t. \<not> probe_stop (table so) key e"
  shows "add_probe (table so) (set_mask so) key (py_hash key)
           (word_of_int (py_hash key) AND set_mask so) (word_of_int (py_hash key)) =
         probe_result (table so) key t"
proof -
  have len: "length (table so) = 8" and mask: "set_mask so = 7"
    using wf by (simp_all add: small_wf_def set_mask_def PySet_MINSIZE_def)
  show ?thesis
    using add_probe_run8 [OF len, of key 0 t] t by (simp add: mask)
qed

lemma not_probe_stop_used:
  "\<not> probe_stop tbl key t \<Longrightarrow> tbl ! unat (probe_at 7 (py_hash key) t) \<noteq> None"
  by (cases "tbl ! unat (probe_at 7 (py_hash key) t)") (simp_all add: probe_stop_def)

lemma set_add_present:
  assumes wf: "small_wf so" and u: "used so \<le> 3" and key: "key \<in> set (set_iter so)"
  shows "set_add_entry so key = Some so"
proof -
  let ?tbl = "table so" and ?p = "\<lambda>t. unat (probe_at 7 (py_hash key) t)"
  obtain t where t: "t < 20" "probe_stop ?tbl key t" "\<forall>e<t. \<not> probe_stop ?tbl key e"
    using first_probe_stop [OF wf u] by blast
  from key obtain j where j: "j < 8" "?tbl ! j = Some key"
    using wf by (auto simp: set_iter_def in_keys_of small_wf_def PySet_MINSIZE_def)
  with wf have "slot_reached ?tbl j" by (simp add: small_wf_def PySet_MINSIZE_def)
  with j obtain tk where tk: "?p tk = j" "\<forall>t'<tk. ?tbl ! ?p t' \<noteq> None"
    by (auto simp: slot_reached_def)
  have "probe_stop ?tbl key tk" using tk(1) j(2) by (simp add: probe_stop_def)
  with t(3) have "t \<le> tk" by (meson not_le)
  then have "?tbl ! ?p t \<noteq> None"
    using tk j(2) by (cases "t = tk") auto
  then have "probe_result ?tbl key t = Some Found_active"
    by (auto simp: probe_result_def)
  then show ?thesis
    using set_add_entry_probe [OF wf t(2,3)] by (simp add: set_add_entry_def)
qed

lemma set_add_absent:
  assumes wf: "small_wf so" and u: "used so \<le> 3" and key: "key \<notin> set (set_iter so)"
  shows "\<exists>so'. set_add_entry so key = Some so' \<and> small_wf so' \<and>
           set (set_iter so') = insert key (set (set_iter so)) \<and> used so' = Suc (used so)"
proof -
  let ?tbl = "table so" and ?p = "\<lambda>t. unat (probe_at 7 (py_hash key) t)"
  obtain t where t: "t < 20" "probe_stop ?tbl key t" "\<forall>e<t. \<not> probe_stop ?tbl key e"
    using first_probe_stop [OF wf u] by blast
  define j where "j = ?p t"
  have len: "length ?tbl = 8" and mask: "set_mask so = 7"
    using wf by (simp_all add: small_wf_def set_mask_def PySet_MINSIZE_def)
  have j8: "j < 8" by (simp add: j_def unat_probe_lt8)
  have none: "?tbl ! j = None"
  proof (cases "?tbl ! j")
    case (Some k)
    with t(2) have "k = key" by (simp add: probe_stop_def j_def)
    with Some j8 len key show ?thesis by (auto simp: set_iter_def in_keys_of)
  qed
  have res: "probe_result ?tbl key t = Some (Found_unused j)"
    using none by (simp add: probe_result_def j_def)
  define so' where "so' = so\<lparr>table := ?tbl[j := Some key], fill := Suc (fill so), used := Suc (used so)\<rparr>"
  have fill: "fill so = used so" using wf by (simp add: small_wf_def)
  have add: "set_add_entry so key = Some so'"
    using set_add_entry_probe [OF wf t(2,3)] res u fill
    by (simp add: set_add_entry_def so'_def mask Let_def)
  obtain ys zs where yz: "keys_of ?tbl = ys @ zs" "keys_of (?tbl[j := Some key]) = ys @ key # zs"
    using keys_of_update_None [of j ?tbl key] j8 len none by auto
  have reach: "slot_reached (?tbl[j := Some key]) j'" if "j' < 8" for j'
  proof (cases "j' = j")
    case True
    have "\<forall>t'<t. ?tbl[j := Some key] ! ?p t' \<noteq> None"
    proof (intro allI impI)
      fix t' assume "t' < t"
      with t(3) have "\<not> probe_stop ?tbl key t'" by blast
      then have "?tbl ! ?p t' \<noteq> None" by (rule not_probe_stop_used)
      then show "?tbl[j := Some key] ! ?p t' \<noteq> None" by (rule update_keeps_used)
    qed
    with True t(1) j8 len show ?thesis
      by (auto simp: slot_reached_def j_def)
  next
    case False
    with that wf show ?thesis
      by (intro slot_reached_update) (simp_all add: small_wf_def PySet_MINSIZE_def)
  qed
  have "small_wf so'"
    using wf key yz reach len by (auto simp: small_wf_def so'_def set_iter_def PySet_MINSIZE_def)
  moreover have "set (set_iter so') = insert key (set (set_iter so))"
    using yz by (auto simp: so'_def set_iter_def)
  ultimately show ?thesis using add by (auto simp: so'_def)
qed

text \<open>C3: adding a key to a set of at most three elements in the 8-slot table
  returns (the probe loop ends), keeps the table invariant, makes the key a
  member and nothing else, and \<open>len()\<close> stays the number of distinct
  members.\<close>

theorem set_add_entry_correct:
  assumes "small_wf so" "set_len so \<le> 3"
  shows "\<exists>so'. set_add_entry so key = Some so' \<and> small_wf so' \<and>
           set (set_iter so') = insert key (set (set_iter so)) \<and>
           set_len so' = card (set (set_iter so'))"
proof -
  have u: "used so \<le> 3" using assms(2) by (simp add: set_len_def)
  have card: "set_len s = card (set (set_iter s))" if "small_wf s" for s
    using that by (simp add: small_wf_def set_len_def distinct_card)
  show ?thesis
  proof (cases "key \<in> set (set_iter so)")
    case True
    with set_add_present [OF assms(1) u True] assms(1) card show ?thesis
      by (auto simp: insert_absorb)
  next
    case False
    with set_add_absent [OF assms(1) u False] card show ?thesis by auto
  qed
qed

theorem set_add_entry_correct_witness:
  "small_wf set_new \<and> set_len set_new \<le> 3 \<and>
   (\<exists>so'. set_add_entry set_new 3 = Some so' \<and> small_wf so' \<and>
      set (set_iter so') = insert 3 (set (set_iter set_new)) \<and>
      set_len so' = card (set (set_iter so')))"
proof -
  have "set_len set_new \<le> 3" by (simp add: set_len_def set_new_def)
  with set_add_entry_correct [OF small_wf_set_new this, of 3] small_wf_set_new
  show ?thesis by simp
qed

end
