(* ===== verification/Generator.thy ===== *)
theory Generator
  imports PyText PyRandom PySet
begin

text \<open>
  The body of \<open>src/scripts/gen_random_3sat.py\<close> after seeding (lines 4-13),
  over any random word source \<open>nxt\<close>:
  \<^item> \<open>draw_literal\<close>: \<open>lit = random.randrange(1, n + 1)\<close>, negated when
    \<open>random.random() < 0.5\<close> (lines 9-11);
  \<^item> \<open>fill_clause\<close>: \<open>while len(clause) < 3: ... clause.add(lit)\<close> (lines 8-12),
    a \<^theory_text>\<open>partial_function (option)\<close> because the loop stops only when three
    distinct literals have been drawn;
  \<^item> \<open>clause_line\<close>: \<open>" ".join(map(str, clause)) + " 0\n"\<close> (line 13), the
    literals in the set's iteration order;
  \<^item> \<open>header\<close>: \<open>f"p cnf {n} {m}\n"\<close> (line 5);
  \<^item> \<open>write_clauses\<close>, \<open>gen_cnf\<close>: \<open>for _ in range(m)\<close> writing one line per
    clause after the header (lines 4-13).
  The state is the generator state together with the text written to the file
  so far; an exception leaves in the file what was written before it (the
  \<open>with\<close> block closes and flushes the file).
\<close>

subsection \<open>Definitions\<close>

definition draw_literal :: "'s rng \<Rightarrow> int \<Rightarrow> 's \<Rightarrow> (int, 's) pyres" where
  "draw_literal nxt n s =
     (case randrange nxt 1 (n + 1) s of
        None \<Rightarrow> None
      | Some (Inl e, s1) \<Rightarrow> Some (Inl e, s1)
      | Some (Inr lit, s1) \<Rightarrow>
          (case py_random nxt s1 of
             (x, s2) \<Rightarrow> Some (Inr (if x < 1 / 2 then - lit else lit), s2)))"

partial_function (option) fill_clause :: "'s rng \<Rightarrow> int \<Rightarrow> pyset \<Rightarrow> 's \<Rightarrow> (pyset, 's) pyres" where
  "fill_clause nxt n clause s =
     (if set_len clause < 3 then
        (case draw_literal nxt n s of
           None \<Rightarrow> None
         | Some (Inl e, s1) \<Rightarrow> Some (Inl e, s1)
         | Some (Inr lit, s1) \<Rightarrow>
             (case set_add_entry clause lit of
                None \<Rightarrow> None
              | Some clause' \<Rightarrow> fill_clause nxt n clause' s1))
      else Some (Inr clause, s))"

definition format_clause :: "int list \<Rightarrow> string" where
  "format_clause lits = join '' '' (map str_int lits) @ '' 0'' @ [CHR ''\<newline>'']"

definition clause_line :: "pyset \<Rightarrow> string" where
  "clause_line clause = format_clause (set_iter clause)"

definition header :: "int \<Rightarrow> int \<Rightarrow> string" where
  "header n m = ''p cnf '' @ str_int n @ '' '' @ str_int m @ [CHR ''\<newline>'']"

fun write_clauses :: "'s rng \<Rightarrow> int \<Rightarrow> nat \<Rightarrow> 's \<Rightarrow> string \<Rightarrow> (unit, 's \<times> string) pyres" where
  "write_clauses nxt n 0 s out = Some (Inr (), (s, out))"
| "write_clauses nxt n (Suc k) s out =
     (case fill_clause nxt n set_new s of
        None \<Rightarrow> None
      | Some (Inl e, s1) \<Rightarrow> Some (Inl e, (s1, out))
      | Some (Inr clause, s1) \<Rightarrow> write_clauses nxt n k s1 (out @ clause_line clause))"

definition gen_cnf :: "'s rng \<Rightarrow> int \<Rightarrow> int \<Rightarrow> 's \<Rightarrow> (unit, 's \<times> string) pyres" where
  "gen_cnf nxt n m s = write_clauses nxt n (nat m) s (header n m)"

text \<open>
  Specification-side helper (not code): the literals of the first \<open>t\<close> draws
  and the generator state after them, \<open>None\<close> if a draw does not return.
\<close>

fun draws :: "'s rng \<Rightarrow> int \<Rightarrow> nat \<Rightarrow> 's \<Rightarrow> (int list \<times> 's) option" where
  "draws nxt n 0 s = Some ([], s)"
| "draws nxt n (Suc t) s =
     (case draw_literal nxt n s of
        Some (Inr l, s1) \<Rightarrow> map_option (\<lambda>(ls, s2). (l # ls, s2)) (draws nxt n t s1)
      | _ \<Rightarrow> None)"

definition lits_ok :: "int \<Rightarrow> int list \<Rightarrow> bool" where
  "lits_ok n ls \<longleftrightarrow> (\<forall>l\<in>set ls. l \<noteq> 0 \<and> \<bar>l\<bar> \<le> n)"

definition clause_inv :: "int \<Rightarrow> pyset \<Rightarrow> bool" where
  "clause_inv n c \<longleftrightarrow> small_wf c \<and> used c \<le> 3 \<and> lits_ok n (set_iter c)"

declare bit_length.simps [simp del]

subsection \<open>Lemmas\<close>

lemma write_clauses_numeral [eval_simps]:
  "write_clauses nxt n (numeral k) s out = write_clauses nxt n (Suc (pred_numeral k)) s out"
  by (simp only: numeral_eq_Suc)

lemmas gen_eval [eval_simps] = One_nat_def gen_cnf_def fill_clause.simps draw_literal_def
  clause_line_def format_clause_def header_def str_int_def str_nat.simps

lemma set_add_small:
  assumes "small_wf so" "used so \<le> 3"
  shows "\<exists>so'. set_add_entry so key = Some so' \<and> small_wf so' \<and>
           set (set_iter so') = insert key (set (set_iter so)) \<and> used so' \<le> Suc (used so)"
proof (cases "key \<in> set (set_iter so)")
  case True
  with set_add_present [OF assms True] assms(1) show ?thesis by auto
next
  case False
  with set_add_absent [OF assms False] show ?thesis by auto
qed

lemma draw_literal_range:
  "draw_literal nxt n s = Some (Inr l, s') \<Longrightarrow> l \<noteq> 0 \<and> \<bar>l\<bar> \<le> n"
  by (auto simp: draw_literal_def dest!: randrange_in_range split: option.splits sum.splits prod.splits if_splits)

lemma draw_literal_no_error: "1 \<le> n \<Longrightarrow> draw_literal nxt n s \<noteq> Some (Inl e, s')"
  by (auto simp: draw_literal_def randrange_def split: option.splits sum.splits prod.splits)

lemma draw_literal_error: "n \<le> 0 \<Longrightarrow> draw_literal nxt n s = Some (Inl ValueError, s)"
  by (simp add: draw_literal_def randrange_def)

lemma clause_inv_add:
  assumes inv: "clause_inv n c" and u: "used c < 3" and l: "l \<noteq> 0 \<and> \<bar>l\<bar> \<le> n"
  shows "\<exists>c'. set_add_entry c l = Some c' \<and> clause_inv n c' \<and>
           set (set_iter c') = insert l (set (set_iter c))"
proof -
  from inv u have "small_wf c" "used c \<le> 3" by (simp_all add: clause_inv_def)
  from set_add_small [OF this, of l] obtain c' where c':
    "set_add_entry c l = Some c'" "small_wf c'" "set (set_iter c') = insert l (set (set_iter c))"
    "used c' \<le> Suc (used c)" by blast
  with inv u l show ?thesis by (auto simp: clause_inv_def lits_ok_def)
qed

lemma fill_clause_returns:
  assumes ret: "fill_clause nxt n clause s = Some (Inr c, s')"
    and inv: "clause_inv n clause"
  shows "clause_inv n c \<and> length (set_iter c) = 3 \<and> set (set_iter clause) \<subseteq> set (set_iter c)"
proof -
  have "clause_inv n clause \<longrightarrow> (case fst (Inr c :: pyexc + pyset, s') of Inl e \<Rightarrow> True
     | Inr c \<Rightarrow> clause_inv n c \<and> length (set_iter c) = 3 \<and> set (set_iter clause) \<subseteq> set (set_iter c))"
  proof (rule fill_clause.raw_induct [OF _ ret])
    fix f :: "'a rng \<Rightarrow> int \<Rightarrow> pyset \<Rightarrow> 'a \<Rightarrow> (pyset, 'a) pyres"
      and nxt n clause s res
    assume IH: "\<And>nxt n clause s res. f nxt n clause s = Some res \<Longrightarrow>
      clause_inv n clause \<longrightarrow> (case fst res of Inl e \<Rightarrow> True
        | Inr c \<Rightarrow> clause_inv n c \<and> length (set_iter c) = 3 \<and> set (set_iter clause) \<subseteq> set (set_iter c))"
      and body: "(if set_len clause < 3 then
        (case draw_literal nxt n s of
           None \<Rightarrow> None
         | Some (Inl e, s1) \<Rightarrow> Some (Inl e, s1)
         | Some (Inr lit, s1) \<Rightarrow>
             (case set_add_entry clause lit of
                None \<Rightarrow> None
              | Some clause' \<Rightarrow> f nxt n clause' s1))
      else Some (Inr clause, s)) = Some res"
    show "clause_inv n clause \<longrightarrow> (case fst res of Inl e \<Rightarrow> True
        | Inr c \<Rightarrow> clause_inv n c \<and> length (set_iter c) = 3 \<and> set (set_iter clause) \<subseteq> set (set_iter c))"
    proof
      assume ci: "clause_inv n clause"
      show "case fst res of Inl e \<Rightarrow> True
        | Inr c \<Rightarrow> clause_inv n c \<and> length (set_iter c) = 3 \<and> set (set_iter clause) \<subseteq> set (set_iter c)"
      proof (cases "set_len clause < 3")
        case False
        with body have "res = (Inr clause, s)" by simp
        moreover have "length (set_iter clause) = 3"
          using ci False by (simp add: clause_inv_def small_wf_def set_len_def)
        ultimately show ?thesis using ci by simp
      next
        case True
        show ?thesis
        proof (cases "draw_literal nxt n s")
          case None
          with True body show ?thesis by simp
        next
          case (Some d)
          then obtain r s1 where d: "draw_literal nxt n s = Some (r, s1)" by (cases d) auto
          show ?thesis
          proof (cases r)
            case (Inl e)
            with d True body show ?thesis by auto
          next
            case (Inr lit)
            with d have lit: "lit \<noteq> 0 \<and> \<bar>lit\<bar> \<le> n" by (simp add: draw_literal_range)
            from clause_inv_add [OF ci _ lit] True obtain c' where
              c': "set_add_entry clause lit = Some c'" "clause_inv n c'"
                  "set (set_iter c') = insert lit (set (set_iter clause))"
              by (auto simp: set_len_def)
            with d Inr True body have "f nxt n c' s1 = Some res" by simp
            from IH [OF this] c' show ?thesis by (auto split: sum.splits)
          qed
        qed
      qed
    qed
  qed
  with inv show ?thesis by simp
qed

lemma clause_inv_card: "clause_inv n c \<Longrightarrow> card (set (set_iter c)) = set_len c"
  by (simp add: clause_inv_def small_wf_def set_len_def distinct_card)

lemma fill_clause_unfold_add:
  assumes "set_len clause < 3" "draw_literal nxt n s = Some (Inr lit, s1)"
    "set_add_entry clause lit = Some c'"
  shows "fill_clause nxt n clause s = fill_clause nxt n c' s1"
  using assms by (subst fill_clause.simps) simp

lemma fill_clause_done: "\<not> set_len clause < 3 \<Longrightarrow> fill_clause nxt n clause s = Some (Inr clause, s)"
  by (subst fill_clause.simps) simp

lemma fill_clause_terminates:
  assumes "clause_inv n clause" "draws nxt n t s = Some (ls, s1)"
    "3 \<le> card (set (set_iter clause) \<union> set ls)"
  shows "fill_clause nxt n clause s \<noteq> None"
  using assms
proof (induction t arbitrary: clause s ls s1)
  case 0
  then have "\<not> set_len clause < 3" by (simp add: clause_inv_card)
  then show ?case by (simp add: fill_clause_done)
next
  case (Suc t)
  show ?case
  proof (cases "set_len clause < 3")
    case False
    then show ?thesis by (simp add: fill_clause_done)
  next
    case True
    from Suc.prems(2) obtain l s2 ls' where
      d: "draw_literal nxt n s = Some (Inr l, s2)" "draws nxt n t s2 = Some (ls', s1)" "ls = l # ls'"
      by (auto split: option.splits sum.splits prod.splits)
    from d(1) have lit: "l \<noteq> 0 \<and> \<bar>l\<bar> \<le> n" by (rule draw_literal_range)
    from clause_inv_add [OF Suc.prems(1) _ lit] True obtain c' where
      c': "set_add_entry clause l = Some c'" "clause_inv n c'"
          "set (set_iter c') = insert l (set (set_iter clause))"
      by (auto simp: set_len_def)
    have "3 \<le> card (set (set_iter c') \<union> set ls')"
      using Suc.prems(3) c'(3) d(3) by (simp add: insert_commute)
    from Suc.IH [OF c'(2) d(2) this] show ?thesis
      by (simp add: fill_clause_unfold_add [OF True d(1) c'(1)])
  qed
qed

lemma fill_clause_terminates_only:
  assumes ret: "fill_clause nxt n clause s = Some res" and n: "1 \<le> n" and inv: "clause_inv n clause"
  shows "\<exists>t ls s1. draws nxt n t s = Some (ls, s1) \<and> 3 \<le> card (set (set_iter clause) \<union> set ls)"
proof -
  have "1 \<le> n \<longrightarrow> clause_inv n clause \<longrightarrow>
     (\<exists>t ls s1. draws nxt n t s = Some (ls, s1) \<and> 3 \<le> card (set (set_iter clause) \<union> set ls))"
  proof (rule fill_clause.raw_induct [OF _ ret])
    fix f :: "'a rng \<Rightarrow> int \<Rightarrow> pyset \<Rightarrow> 'a \<Rightarrow> (pyset, 'a) pyres"
      and nxt n clause s res
    assume IH: "\<And>nxt n clause s res. f nxt n clause s = Some res \<Longrightarrow> 1 \<le> n \<longrightarrow> clause_inv n clause \<longrightarrow>
      (\<exists>t ls s1. draws nxt n t s = Some (ls, s1) \<and> 3 \<le> card (set (set_iter clause) \<union> set ls))"
      and body: "(if set_len clause < 3 then
        (case draw_literal nxt n s of
           None \<Rightarrow> None
         | Some (Inl e, s1) \<Rightarrow> Some (Inl e, s1)
         | Some (Inr lit, s1) \<Rightarrow>
             (case set_add_entry clause lit of
                None \<Rightarrow> None
              | Some clause' \<Rightarrow> f nxt n clause' s1))
      else Some (Inr clause, s)) = Some res"
    show "1 \<le> n \<longrightarrow> clause_inv n clause \<longrightarrow>
      (\<exists>t ls s1. draws nxt n t s = Some (ls, s1) \<and> 3 \<le> card (set (set_iter clause) \<union> set ls))"
    proof (intro impI)
      assume n: "1 \<le> n" and ci: "clause_inv n clause"
      show "\<exists>t ls s1. draws nxt n t s = Some (ls, s1) \<and> 3 \<le> card (set (set_iter clause) \<union> set ls)"
      proof (cases "set_len clause < 3")
        case False
        then have "draws nxt n 0 s = Some ([], s) \<and> 3 \<le> card (set (set_iter clause) \<union> set [])"
          using ci by (simp add: clause_inv_card)
        then show ?thesis by blast
      next
        case True
        obtain r s1 where d: "draw_literal nxt n s = Some (r, s1)"
          using True body by (cases "draw_literal nxt n s") auto
        obtain lit where r: "r = Inr lit"
        proof (cases r)
          case (Inl e)
          with d draw_literal_no_error [OF n, of nxt s e s1] show ?thesis by simp
        qed
        from d r have lit: "lit \<noteq> 0 \<and> \<bar>lit\<bar> \<le> n" by (simp add: draw_literal_range)
        from clause_inv_add [OF ci _ lit] True obtain c' where
          c': "set_add_entry clause lit = Some c'" "clause_inv n c'"
              "set (set_iter c') = insert lit (set (set_iter clause))"
          by (auto simp: set_len_def)
        with d r True body have "f nxt n c' s1 = Some res" by simp
        from IH [OF this] n c'(2) obtain t ls s2 where
          t: "draws nxt n t s1 = Some (ls, s2)" "3 \<le> card (set (set_iter c') \<union> set ls)"
          by blast
        have "draws nxt n (Suc t) s = Some (lit # ls, s2)"
          using d r t(1) by simp
        moreover have "3 \<le> card (set (set_iter clause) \<union> set (lit # ls))"
          using t(2) c'(3) by (simp add: insert_commute)
        ultimately show ?thesis by blast
      qed
    qed
  qed
  with n inv show ?thesis by simp
qed

lemma draws_lits_ok: "draws nxt n t s = Some (ls, s1) \<Longrightarrow> lits_ok n ls"
proof (induction t arbitrary: s ls)
  case (Suc t)
  then obtain l s2 ls' where "draw_literal nxt n s = Some (Inr l, s2)"
    "draws nxt n t s2 = Some (ls', s1)" "ls = l # ls'"
    by (auto split: option.splits sum.splits prod.splits)
  with Suc.IH show ?case by (auto simp: lits_ok_def dest: draw_literal_range)
qed (simp add: lits_ok_def)

lemma clause_inv_set_new: "clause_inv n set_new"
  using small_wf_set_new by (simp add: clause_inv_def lits_ok_def set_new_def set_iter_def)

lemma write_clauses_returns:
  assumes "write_clauses nxt n k s out = Some (Inr (), (s', out'))"
  shows "\<exists>cs. length cs = k \<and> out' = out @ concat (map format_clause cs) \<and>
           (\<forall>c\<in>set cs. length c = 3 \<and> distinct c \<and> lits_ok n c)"
  using assms
proof (induction k arbitrary: s out)
  case 0
  then show ?case by simp
next
  case (Suc k)
  then obtain c s1 where c: "fill_clause nxt n set_new s = Some (Inr c, s1)"
    and rest: "write_clauses nxt n k s1 (out @ clause_line c) = Some (Inr (), (s', out'))"
    by (auto split: option.splits sum.splits prod.splits)
  from fill_clause_returns [OF c clause_inv_set_new]
  have "length (set_iter c) = 3 \<and> distinct (set_iter c) \<and> lits_ok n (set_iter c)"
    by (simp add: clause_inv_def small_wf_def)
  moreover from Suc.IH [OF rest] obtain cs where
    "length cs = k" "out' = (out @ clause_line c) @ concat (map format_clause cs)"
    "\<forall>c\<in>set cs. length c = 3 \<and> distinct c \<and> lits_ok n c"
    by blast
  ultimately show ?case
    by (intro exI [of _ "set_iter c # cs"]) (simp add: clause_line_def)
qed

lemma fill_clause_n1_None: "fill_clause nxt 1 set_new s = None"
proof (rule ccontr)
  assume "fill_clause nxt 1 set_new s \<noteq> None"
  then obtain res where "fill_clause nxt 1 set_new s = Some res" by blast
  from fill_clause_terminates_only [OF this _ clause_inv_set_new] obtain t ls s1 where
    t: "draws nxt 1 t s = Some (ls, s1)" "3 \<le> card (set (set_iter set_new) \<union> set ls)"
    by auto
  from draws_lits_ok [OF t(1)] have "set ls \<subseteq> {-1, 1}"
    by (auto simp: lits_ok_def)
  then have "card (set ls) \<le> card {-1, 1 :: int}"
    by (rule card_mono [rotated]) simp
  then have "card (set ls) \<le> 2" by simp
  with t(2) show False by (simp add: set_new_def set_iter_def)
qed

lemma complementary_pair:
  assumes "length c = 3" "distinct c" "lits_ok 2 c"
  shows "\<exists>l\<in>set c. - l \<in> set c"
proof (rule ccontr)
  assume no: "\<not> (\<exists>l\<in>set c. - l \<in> set c)"
  have "inj_on abs (set c)"
  proof (rule inj_onI)
    fix x y :: int
    assume "x \<in> set c" "y \<in> set c" "\<bar>x\<bar> = \<bar>y\<bar>"
    with no show "x = y" by (auto simp: abs_eq_iff)
  qed
  then have "card (abs ` set c) = 3"
    using assms(1,2) by (simp add: card_image distinct_card)
  moreover have "abs ` set c \<subseteq> {1, 2}"
    using assms(3) by (auto simp: lits_ok_def)
  then have "card (abs ` set c) \<le> card {1::int, 2}"
    by (rule card_mono [rotated]) simp
  ultimately show False by simp
qed

text \<open>C1: a run of the generator that returns has written the header
  \<open>p cnf n m\<close> followed by exactly \<open>max m 0\<close> clause lines, each listing three
  distinct non-zero literals of absolute value at most \<open>n\<close>, followed by \<open>0\<close>.\<close>

theorem gen_cnf_output:
  assumes "gen_cnf nxt n m s = Some (Inr (), (s', out))"
  shows "\<exists>cs. length cs = nat m \<and> out = header n m @ concat (map format_clause cs) \<and>
           (\<forall>c\<in>set cs. length c = 3 \<and> distinct c \<and> (\<forall>l\<in>set c. l \<noteq> 0 \<and> \<bar>l\<bar> \<le> n))"
  using write_clauses_returns [OF assms [unfolded gen_cnf_def]] by (simp add: lits_ok_def)

theorem gen_cnf_output_witness:
  "\<exists>cs. length cs = 2 \<and>
     ''p cnf 3 2\<newline>1 2 -2 0\<newline>1 2 -3 0\<newline>'' = header 3 2 @ concat (map format_clause cs) \<and>
     (\<forall>c\<in>set cs. length c = 3 \<and> distinct c \<and> (\<forall>l\<in>set c. l \<noteq> 0 \<and> \<bar>l\<bar> \<le> 3))"
proof -
  have "gen_cnf demo_rng 3 2 0 = Some (Inr (), (23, ''p cnf 3 2\<newline>1 2 -2 0\<newline>1 2 -3 0\<newline>''))"
    by (simp add: eval_simps cong: eval_cong)
  from gen_cnf_output [OF this] show ?thesis by simp
qed

text \<open>C2: for \<open>n \<ge> 1\<close> the loop \<open>while len(clause) < 3\<close> returns exactly when
  the literals drawn from the random source eventually include three distinct
  values; otherwise it runs forever.\<close>

theorem fill_clause_terminates_iff:
  assumes "1 \<le> n"
  shows "fill_clause nxt n set_new s \<noteq> None \<longleftrightarrow>
           (\<exists>t ls s1. draws nxt n t s = Some (ls, s1) \<and> 3 \<le> card (set ls))"
proof
  assume "fill_clause nxt n set_new s \<noteq> None"
  then obtain res where "fill_clause nxt n set_new s = Some res" by blast
  from fill_clause_terminates_only [OF this assms clause_inv_set_new]
  show "\<exists>t ls s1. draws nxt n t s = Some (ls, s1) \<and> 3 \<le> card (set ls)"
    by (simp add: set_new_def set_iter_def)
next
  assume "\<exists>t ls s1. draws nxt n t s = Some (ls, s1) \<and> 3 \<le> card (set ls)"
  then obtain t ls s1 where "draws nxt n t s = Some (ls, s1)" "3 \<le> card (set ls)" by blast
  then show "fill_clause nxt n set_new s \<noteq> None"
    using fill_clause_terminates [OF clause_inv_set_new] by (simp add: set_new_def set_iter_def)
qed

theorem fill_clause_terminates_iff_witness:
  "1 \<le> (3::int) \<and>
   (fill_clause demo_rng 3 set_new 0 \<noteq> None \<longleftrightarrow>
      (\<exists>t ls s1. draws demo_rng 3 t 0 = Some (ls, s1) \<and> 3 \<le> card (set ls)))"
  using fill_clause_terminates_iff [of 3 demo_rng 0] by simp

text \<open>C6: with \<open>n = 1\<close> only the literals \<open>1\<close> and \<open>-1\<close> exist, so for any
  random source the first clause never reaches three elements and the script
  never returns.\<close>

theorem gen_cnf_n1_diverges: "1 \<le> m \<Longrightarrow> gen_cnf nxt 1 m s = None"
proof -
  assume "1 \<le> m"
  then obtain k where "nat m = Suc k" by (cases "nat m") auto
  then show ?thesis by (simp add: gen_cnf_def fill_clause_n1_None)
qed

theorem gen_cnf_n1_diverges_witness: "1 \<le> (1::int) \<and> gen_cnf demo_rng 1 1 0 = None"
  using gen_cnf_n1_diverges [of 1 demo_rng 0] by simp

text \<open>C7: with \<open>n \<le> 0\<close> and at least one clause, \<open>randrange(1, n + 1)\<close>
  raises \<open>ValueError\<close> on the first draw; the file holds only the header.\<close>

theorem gen_cnf_nonpos_n_raises:
  "n \<le> 0 \<Longrightarrow> 1 \<le> m \<Longrightarrow> gen_cnf nxt n m s = Some (Inl ValueError, (s, header n m))"
proof -
  assume n: "n \<le> 0" and m: "1 \<le> m"
  from m obtain k where k: "nat m = Suc k" by (cases "nat m") auto
  have "fill_clause nxt n set_new s = Some (Inl ValueError, s)"
    using n by (subst fill_clause.simps) (simp add: draw_literal_error set_len_def set_new_def)
  with k show ?thesis by (simp add: gen_cnf_def)
qed

theorem gen_cnf_nonpos_n_raises_witness:
  "(0::int) \<le> 0 \<and> 1 \<le> (1::int) \<and>
   gen_cnf demo_rng 0 1 0 = Some (Inl ValueError, (0, ''p cnf 0 1\<newline>''))"
  using gen_cnf_nonpos_n_raises [of 0 1 demo_rng 0] by (simp add: eval_simps cong: eval_cong)

text \<open>C8: with \<open>n = 2\<close> every clause of a run that returns holds a literal
  together with its negation: three distinct non-zero literals of absolute
  value at most 2 cannot avoid a complementary pair, so every clause the script
  writes for \<open>n = 2\<close> is a tautology.\<close>

theorem gen_cnf_n2_complementary:
  assumes "gen_cnf nxt 2 m s = Some (Inr (), (s', out))"
  shows "\<exists>cs. length cs = nat m \<and> out = header 2 m @ concat (map format_clause cs) \<and>
           (\<forall>c\<in>set cs. \<exists>l\<in>set c. - l \<in> set c)"
proof -
  from write_clauses_returns [OF assms [unfolded gen_cnf_def]] obtain cs where
    cs: "length cs = nat m" "out = header 2 m @ concat (map format_clause cs)"
        "\<forall>c\<in>set cs. length c = 3 \<and> distinct c \<and> lits_ok 2 c"
    by auto
  have "\<forall>c\<in>set cs. \<exists>l\<in>set c. - l \<in> set c"
    using cs(3) by (auto intro: complementary_pair)
  with cs(1,2) show ?thesis by blast
qed

theorem gen_cnf_n2_complementary_witness:
  "\<exists>cs. length cs = 1 \<and> ''p cnf 2 1\<newline>1 2 -2 0\<newline>'' = header 2 1 @ concat (map format_clause cs) \<and>
     (\<forall>c\<in>set cs. \<exists>l\<in>set c. - l \<in> set c)"
proof -
  have "gen_cnf demo_rng 2 1 0 = Some (Inr (), (10, ''p cnf 2 1\<newline>1 2 -2 0\<newline>''))"
    by (simp add: eval_simps cong: eval_cong)
  from gen_cnf_n2_complementary [OF this] show ?thesis by simp
qed

text \<open>C9: with \<open>m \<le> 0\<close> no clause is drawn: the file holds only the header
  and the random generator is untouched, whatever \<open>n\<close> is.\<close>

theorem gen_cnf_no_clauses: "m \<le> 0 \<Longrightarrow> gen_cnf nxt n m s = Some (Inr (), (s, header n m))"
  by (simp add: gen_cnf_def)

theorem gen_cnf_no_clauses_witness:
  "(0::int) \<le> 0 \<and> gen_cnf demo_rng (-5) 0 7 = Some (Inr (), (7, ''p cnf -5 0\<newline>''))"
  using gen_cnf_no_clauses [of 0 demo_rng "-5" 7] by (simp add: eval_simps cong: eval_cong)

end
