(* ===== verification/MersenneTwister.thy ===== *)
theory MersenneTwister
  imports Prelude PyRandom
begin

text \<open>
  CPython's Mersenne Twister (\<open>Modules/_randommodule.c\<close>), the state of the
  module-level \<open>random.Random\<close> object the generator script seeds on line 3
  and draws from on lines 9 and 10. \<open>genrand_uint32\<close> is the word source
  \<open>'s rng\<close> of \<open>Prelude\<close> that \<open>PyRandom\<close>'s methods are built on.
  \<open>random.seed(a)\<close> for an int \<open>a\<close> is \<open>random_seed\<close>: the 32-bit chunks of
  \<open>abs(a)\<close>, least significant first, passed to \<open>init_by_array\<close>.
  C's in-place loops over the 624-word array are recursions over the index
  with list updates; the \<open>uint32_t\<close> arithmetic is on \<open>32 word\<close>, so
  products and sums wrap as in C.
\<close>

unbundle bit_operations_syntax

subsection \<open>Definitions\<close>

text \<open>\<open>RandomObject\<close>: \<open>uint32_t state[N]; int index;\<close>.\<close>

record mt_state =
  state :: "u32 list"
  index :: nat

definition MT_N :: nat where "MT_N = 624"
definition MT_M :: nat where "MT_M = 397"
definition MATRIX_A :: u32 where "MATRIX_A = 0x9908b0df"
definition UPPER_MASK :: u32 where "UPPER_MASK = 0x80000000"
definition LOWER_MASK :: u32 where "LOWER_MASK = 0x7fffffff"

text \<open>\<open>mag01[x]\<close> for \<open>x = y & 1\<close>, and one update of the twist:
  \<open>y = (a & UPPER_MASK) | (b & LOWER_MASK); c ^ (y >> 1) ^ mag01[y & 1]\<close>.\<close>

definition mag01 :: "u32 \<Rightarrow> u32" where
  "mag01 x = (if x = 0 then 0 else MATRIX_A)"

definition mt_mix :: "u32 \<Rightarrow> u32 \<Rightarrow> u32 \<Rightarrow> u32" where
  "mt_mix a b c =
     (let y = (a AND UPPER_MASK) OR (b AND LOWER_MASK)
      in c XOR drop_bit 1 y XOR mag01 (y AND 1))"

text \<open>The three loops of \<open>genrand_uint32\<close>'s refill: \<open>kk\<close> from 0 below
  \<open>N - M\<close> reads \<open>mt[kk + M]\<close>; from \<open>N - M\<close> below \<open>N - 1\<close> reads
  \<open>mt[kk + (M - N)]\<close>, already updated; the last word wraps to \<open>mt[0]\<close>.\<close>

function twist_lo :: "nat \<Rightarrow> u32 list \<Rightarrow> u32 list" where
  "twist_lo kk mt =
     (if kk < MT_N - MT_M
      then twist_lo (Suc kk) (mt[kk := mt_mix (mt ! kk) (mt ! Suc kk) (mt ! (kk + MT_M))])
      else mt)"
  by pat_completeness auto
termination by (relation "measure (\<lambda>(kk, _). MT_N - kk)") auto

function twist_hi :: "nat \<Rightarrow> u32 list \<Rightarrow> u32 list" where
  "twist_hi kk mt =
     (if kk < MT_N - 1
      then twist_hi (Suc kk) (mt[kk := mt_mix (mt ! kk) (mt ! Suc kk) (mt ! (kk + MT_M - MT_N))])
      else mt)"
  by pat_completeness auto
termination by (relation "measure (\<lambda>(kk, _). MT_N - kk)") auto

definition twist :: "u32 list \<Rightarrow> u32 list" where
  "twist mt =
     (let mt1 = twist_hi (MT_N - MT_M) (twist_lo 0 mt)
      in mt1[MT_N - 1 := mt_mix (mt1 ! (MT_N - 1)) (mt1 ! 0) (mt1 ! (MT_M - 1))])"

definition tempering :: "u32 \<Rightarrow> u32" where
  "tempering y0 =
     (let y1 = y0 XOR drop_bit 11 y0;
          y2 = y1 XOR (push_bit 7 y1 AND 0x9d2c5680);
          y3 = y2 XOR (push_bit 15 y2 AND 0xefc60000)
      in y3 XOR drop_bit 18 y3)"

text \<open>\<open>genrand_uint32\<close>: refill when \<open>index >= N\<close>, then temper
  \<open>mt[index++]\<close>.\<close>

definition genrand_uint32 :: "mt_state \<Rightarrow> u32 \<times> mt_state" where
  "genrand_uint32 st =
     (let st1 = (if MT_N \<le> index st then st\<lparr>state := twist (state st), index := 0\<rparr> else st)
      in (tempering (state st1 ! index st1), st1\<lparr>index := Suc (index st1)\<rparr>))"

text \<open>\<open>init_genrand(self, s)\<close> and \<open>init_by_array(self, init_key, key_length)\<close>.\<close>

function init_genrand_loop :: "nat \<Rightarrow> u32 list \<Rightarrow> u32 list" where
  "init_genrand_loop i mt =
     (if i < MT_N
      then init_genrand_loop (Suc i)
             (mt[i := 1812433253 * (mt ! (i - 1) XOR drop_bit 30 (mt ! (i - 1))) + word_of_nat i])
      else mt)"
  by pat_completeness auto
termination by (relation "measure (\<lambda>(i, _). MT_N - i)") auto

definition init_genrand :: "mt_state \<Rightarrow> u32 \<Rightarrow> mt_state" where
  "init_genrand st s = st\<lparr>state := init_genrand_loop 1 ((state st)[0 := s]), index := MT_N\<rparr>"

primrec iba_loop1 :: "u32 list \<Rightarrow> nat \<Rightarrow> nat \<Rightarrow> nat \<Rightarrow> u32 list \<Rightarrow> u32 list \<times> nat" where
  "iba_loop1 key 0 i j mt = (mt, i)"
| "iba_loop1 key (Suc k) i j mt =
     (let mt1 = mt[i := (mt ! i XOR ((mt ! (i - 1) XOR drop_bit 30 (mt ! (i - 1))) * 1664525))
                         + key ! j + word_of_nat j];
          i1 = Suc i; j1 = Suc j;
          (mt2, i2) = (if MT_N \<le> i1 then (mt1[0 := mt1 ! (MT_N - 1)], 1) else (mt1, i1));
          j2 = (if length key \<le> j1 then 0 else j1)
      in iba_loop1 key k i2 j2 mt2)"

primrec iba_loop2 :: "nat \<Rightarrow> nat \<Rightarrow> u32 list \<Rightarrow> u32 list" where
  "iba_loop2 0 i mt = mt"
| "iba_loop2 (Suc k) i mt =
     (let mt1 = mt[i := (mt ! i XOR ((mt ! (i - 1) XOR drop_bit 30 (mt ! (i - 1))) * 1566083941))
                         - word_of_nat i];
          i1 = Suc i;
          (mt2, i2) = (if MT_N \<le> i1 then (mt1[0 := mt1 ! (MT_N - 1)], 1) else (mt1, i1))
      in iba_loop2 k i2 mt2)"

definition init_by_array :: "mt_state \<Rightarrow> u32 list \<Rightarrow> mt_state" where
  "init_by_array st key =
     (let st1 = init_genrand st 19650218;
          (mt1, i) = iba_loop1 key (max MT_N (length key)) 1 0 (state st1);
          mt2 = iba_loop2 (MT_N - 1) i mt1
      in st1\<lparr>state := mt2[0 := 0x80000000]\<rparr>)"

text \<open>\<open>random_seed(self, arg)\<close> for an int: \<open>n = abs(arg)\<close>, \<open>keyused =
  bits == 0 ? 1 : (bits - 1) / 32 + 1\<close> words of \<open>n\<close> in little-endian order.\<close>

definition seed_key :: "int \<Rightarrow> u32 list" where
  "seed_key a =
     (let n = nat \<bar>a\<bar>; bits = bit_length n;
          keyused = (if bits = 0 then 1 else (bits - 1) div 32 + 1)
      in map (\<lambda>i. word_of_nat (n div 2 ^ (32 * i))) [0..<keyused])"

definition random_seed :: "mt_state \<Rightarrow> int \<Rightarrow> mt_state" where
  "random_seed st a = init_by_array st (seed_key a)"

text \<open>Specification side: the MT19937 linear recurrence over the words of a
  state: \<open>x (k + n) = x (k + m) XOR A(upper x k, lower x (k + 1))\<close>.\<close>

function mt_seq :: "u32 list \<Rightarrow> nat \<Rightarrow> u32" where
  "mt_seq s i =
     (if i < MT_N then s ! i
      else mt_mix (mt_seq s (i - MT_N)) (mt_seq s (i - MT_N + 1)) (mt_seq s (i - MT_N + MT_M)))"
  by pat_completeness auto
termination by (relation "measure (\<lambda>(s, i). i)") (auto simp: MT_N_def MT_M_def)

definition mt_wf :: "mt_state \<Rightarrow> bool" where
  "mt_wf st \<longleftrightarrow> length (state st) = MT_N \<and> index st \<le> MT_N"

text \<open>The number a key of 32-bit words denotes, least significant word first.\<close>

definition key_value :: "u32 list \<Rightarrow> nat" where
  "key_value ws = foldr (\<lambda>w acc. unat w + 4294967296 * acc) ws 0"

text \<open>The states a \<open>random.Random\<close> object passes through from \<open>st0\<close>: each call
  of \<open>seed(a)\<close> for an int \<open>a\<close> and each word drawn by \<open>genrand_uint32\<close> (the
  only state changes of the methods the script calls).\<close>

inductive mt_reach :: "mt_state \<Rightarrow> mt_state \<Rightarrow> bool" for st0 :: mt_state where
  start: "mt_reach st0 st0"
| seed: "mt_reach st0 st \<Longrightarrow> mt_reach st0 (random_seed st a)"
| draw: "mt_reach st0 st \<Longrightarrow> mt_reach st0 (snd (genrand_uint32 st))"

text \<open>Specification side: the inverse of \<open>tempering\<close>, undoing its four steps
  in reverse order (the \<open><< 7\<close> step by four fixed-point iterations).\<close>

definition untempering :: "u32 \<Rightarrow> u32" where
  "untempering y =
     (let y3 = y XOR drop_bit 18 y;
          y2 = y3 XOR (push_bit 15 y3 AND 0xefc60000);
          f = (\<lambda>x. y2 XOR (push_bit 7 x AND 0x9d2c5680));
          y1 = f (f (f (f y2)))
      in y1 XOR drop_bit 11 y1 XOR drop_bit 22 y1)"

subsection \<open>Lemmas\<close>

declare twist_lo.simps [simp del] twist_hi.simps [simp del] init_genrand_loop.simps [simp del]
  mt_seq.simps [simp del]

lemma length_twist_lo [simp]: "length (twist_lo kk mt) = length mt"
  by (induction kk mt rule: twist_lo.induct) (subst twist_lo.simps, simp)

lemma length_twist_hi [simp]: "length (twist_hi kk mt) = length mt"
  by (induction kk mt rule: twist_hi.induct) (subst twist_hi.simps, simp)

lemma length_twist [simp]: "length (twist mt) = length mt"
  by (simp add: twist_def Let_def)

lemma length_init_genrand_loop [simp]: "length (init_genrand_loop i mt) = length mt"
  by (induction i mt rule: init_genrand_loop.induct) (subst init_genrand_loop.simps, simp)

lemma length_iba_loop1 [simp]: "length (fst (iba_loop1 key k i j mt)) = length mt"
  by (induction k arbitrary: i j mt) (auto simp: Let_def split: prod.split)

lemma length_iba_loop1_eq: "iba_loop1 key k i j mt = (mt', i') \<Longrightarrow> length mt' = length mt"
  using length_iba_loop1 [of key k i j mt] by simp

lemma length_iba_loop2 [simp]: "length (iba_loop2 k i mt) = length mt"
  by (induction k arbitrary: i mt) (auto simp: Let_def split: prod.split)

lemma genrand_uint32_wf: "mt_wf st \<Longrightarrow> mt_wf (snd (genrand_uint32 st))"
  by (auto simp: mt_wf_def genrand_uint32_def Let_def MT_N_def)

lemma random_seed_shape:
  "length (state (random_seed st a)) = length (state st) \<and> index (random_seed st a) = MT_N"
  by (auto simp: random_seed_def init_by_array_def init_genrand_def Let_def
      dest: length_iba_loop1_eq split: prod.split)


lemma twist_lo_nth:
  "length mt = MT_N \<Longrightarrow> i < MT_N \<Longrightarrow>
   twist_lo kk mt ! i =
     (if kk \<le> i \<and> i < MT_N - MT_M then mt_mix (mt ! i) (mt ! Suc i) (mt ! (i + MT_M)) else mt ! i)"
proof (induction kk mt arbitrary: i rule: twist_lo.induct)
  case (1 kk mt)
  show ?case
  proof (cases "kk < MT_N - MT_M")
    case True
    let ?mt' = "mt[kk := mt_mix (mt ! kk) (mt ! Suc kk) (mt ! (kk + MT_M))]"
    have "twist_lo kk mt = twist_lo (Suc kk) ?mt'"
      using True by (subst twist_lo.simps) simp
    with "1.IH" [OF True] "1.prems" True show ?thesis
      by (auto simp: nth_list_update MT_N_def MT_M_def)
  next
    case False
    then show ?thesis by (subst twist_lo.simps) auto
  qed
qed

lemma twist_hi_nth:
  "length mt = MT_N \<Longrightarrow> i < MT_N \<Longrightarrow> MT_N - MT_M \<le> kk \<Longrightarrow>
   twist_hi kk mt ! i =
     (if kk \<le> i \<and> i < MT_N - 1
      then mt_mix (mt ! i) (mt ! Suc i) (twist_hi kk mt ! (i + MT_M - MT_N)) else mt ! i)"
proof (induction kk mt arbitrary: i rule: twist_hi.induct)
  case (1 kk mt)
  show ?case
  proof (cases "kk < MT_N - 1")
    case True
    let ?mt' = "mt[kk := mt_mix (mt ! kk) (mt ! Suc kk) (mt ! (kk + MT_M - MT_N))]"
    have eq: "twist_hi kk mt = twist_hi (Suc kk) ?mt'"
      using True by (subst twist_hi.simps) simp
    have ih: "\<And>j. j < MT_N \<Longrightarrow> twist_hi (Suc kk) ?mt' ! j =
      (if Suc kk \<le> j \<and> j < MT_N - 1
       then mt_mix (?mt' ! j) (?mt' ! Suc j) (twist_hi (Suc kk) ?mt' ! (j + MT_M - MT_N)) else ?mt' ! j)"
      using "1.IH" [OF True] "1.prems" by simp
    have early: "twist_hi (Suc kk) ?mt' ! (kk + MT_M - MT_N) = mt ! (kk + MT_M - MT_N)"
    proof -
      have "kk + MT_M - MT_N < MT_N" using True by (simp add: MT_N_def MT_M_def)
      from ih [OF this] show ?thesis using "1.prems" True by (auto simp: MT_N_def MT_M_def)
    qed
    show ?thesis
      unfolding eq using ih [OF "1.prems"(2)] early "1.prems" True
      by (auto simp: nth_list_update MT_N_def MT_M_def)
  next
    case False
    then show ?thesis by (subst twist_hi.simps) auto
  qed
qed


lemma mt_seq_low: "i < MT_N \<Longrightarrow> mt_seq s i = s ! i"
  by (subst mt_seq.simps) simp

lemma mt_seq_high:
  "mt_seq s (MT_N + k) = mt_mix (mt_seq s k) (mt_seq s (Suc k)) (mt_seq s (k + MT_M))"
  by (subst mt_seq.simps) simp

lemma twist_nth_seq:
  assumes len: "length s = MT_N"
  shows "k < MT_N \<Longrightarrow> twist s ! k = mt_seq s (MT_N + k)"
proof (induction k rule: less_induct)
  case (less k)
  define lo where "lo = twist_lo 0 s"
  define hi where "hi = twist_hi (MT_N - MT_M) lo"
  have len_lo: "length lo = MT_N" using len by (simp add: lo_def)
  have tw: "twist s = hi[MT_N - 1 := mt_mix (hi ! (MT_N - 1)) (hi ! 0) (hi ! (MT_M - 1))]"
    by (simp add: twist_def hi_def lo_def Let_def)
  have lo_nth: "\<And>i. i < MT_N \<Longrightarrow> lo ! i =
      (if i < MT_N - MT_M then mt_mix (s ! i) (s ! Suc i) (s ! (i + MT_M)) else s ! i)"
    unfolding lo_def using len by (simp add: twist_lo_nth)
  have hi_nth: "\<And>i. i < MT_N \<Longrightarrow> hi ! i =
      (if MT_N - MT_M \<le> i \<and> i < MT_N - 1
       then mt_mix (lo ! i) (lo ! Suc i) (hi ! (i + MT_M - MT_N)) else lo ! i)"
    unfolding hi_def using len_lo by (simp add: twist_hi_nth)
  have tw_hi: "\<And>i. i < MT_N - 1 \<Longrightarrow> twist s ! i = hi ! i"
    by (simp add: tw)
  have ih: "\<And>i. i < k \<Longrightarrow> twist s ! i = mt_seq s (MT_N + i)"
    using less.IH less.prems by simp
  consider (a) "k < MT_N - MT_M" | (b) "MT_N - MT_M \<le> k" "k < MT_N - 1" | (c) "k = MT_N - 1"
    using less.prems by linarith
  then show ?case
  proof cases
    case a
    then show ?thesis
      using tw_hi [of k] hi_nth [of k] lo_nth [of k]
      by (simp add: mt_seq_high) (simp add: mt_seq_low MT_N_def MT_M_def)
  next
    case b
    have "hi ! (k + MT_M - MT_N) = mt_seq s (k + MT_M)"
      using tw_hi [of "k + MT_M - MT_N"] ih [of "k + MT_M - MT_N"] b
      by (auto simp: MT_N_def MT_M_def add.commute)
    then show ?thesis
      using b tw_hi [of k] hi_nth [of k] lo_nth [of k] lo_nth [of "Suc k"]
      by (simp add: mt_seq_high) (simp add: mt_seq_low MT_N_def MT_M_def)
  next
    case c
    have "hi ! 0 = mt_seq s MT_N" "hi ! (MT_M - 1) = mt_seq s (MT_N - 1 + MT_M)"
      using tw_hi [of 0] ih [of 0] tw_hi [of "MT_M - 1"] ih [of "MT_M - 1"] c
      by (simp_all add: MT_N_def MT_M_def)
    moreover have "length hi = MT_N" using len_lo by (simp add: hi_def)
    moreover have "hi ! (MT_N - 1) = s ! (MT_N - 1)"
      using hi_nth [of "MT_N - 1"] lo_nth [of "MT_N - 1"] by (simp add: MT_N_def MT_M_def)
    ultimately show ?thesis
      using c len by (simp add: tw mt_seq_high) (simp add: mt_seq_low MT_N_def MT_M_def)
  qed
qed


lemma mt_seq_twist: "length s = MT_N \<Longrightarrow> mt_seq (twist s) i = mt_seq s (MT_N + i)"
proof (induction i rule: less_induct)
  case (less i)
  show ?case
  proof (cases "i < MT_N")
    case True
    then show ?thesis using less.prems by (simp add: mt_seq_low twist_nth_seq)
  next
    case False
    then obtain k where k: "i = MT_N + k" by (metis le_Suc_ex not_less)
    have "k < i" "Suc k < i" "k + MT_M < i" using k by (simp_all add: MT_N_def MT_M_def)
    with less.IH less.prems k show ?thesis
      by (simp add: mt_seq_high ac_simps)
  qed
qed

lemma length_funpow_twist [simp]: "length ((twist ^^ q) s) = length s"
  by (induction q) simp_all

lemma mt_seq_funpow_twist:
  "length s = MT_N \<Longrightarrow> mt_seq ((twist ^^ q) s) i = mt_seq s (q * MT_N + i)"
  by (induction q arbitrary: i) (simp_all add: mt_seq_twist ac_simps)

lemma funpow_twist_nth:
  "length s = MT_N \<Longrightarrow> i < MT_N \<Longrightarrow> (twist ^^ Suc q) s ! i = mt_seq s (Suc q * MT_N + i)"
  by (simp add: twist_nth_seq mt_seq_funpow_twist ac_simps)


lemma genrand_iter:
  assumes "index st = MT_N"
  shows "rng_iter genrand_uint32 (Suc t) st =
           st\<lparr>state := (twist ^^ Suc (t div MT_N)) (state st), index := Suc (t mod MT_N)\<rparr>"
proof (induction t)
  case 0
  show ?case using assms by (simp add: genrand_uint32_def Let_def MT_N_def)
next
  case (Suc t)
  have lt: "t mod MT_N < MT_N" by (simp add: MT_N_def)
  have "rng_iter genrand_uint32 (Suc (Suc t)) st =
          snd (genrand_uint32 (st\<lparr>state := (twist ^^ Suc (t div MT_N)) (state st),
                                 index := Suc (t mod MT_N)\<rparr>))"
    by (simp only: rng_iter_Suc_last [of _ "Suc t"] Suc.IH)
  also have "\<dots> = st\<lparr>state := (twist ^^ Suc (Suc t div MT_N)) (state st),
                     index := Suc (Suc t mod MT_N)\<rparr>"
  proof (cases "Suc (t mod MT_N) = MT_N")
    case True
    then have "Suc t mod MT_N = 0" "Suc t div MT_N = Suc (t div MT_N)"
      by (simp_all add: mod_Suc div_Suc)
    with True show ?thesis by (simp add: genrand_uint32_def Let_def)
  next
    case False
    then have "Suc t mod MT_N = Suc (t mod MT_N)" "Suc t div MT_N = t div MT_N"
      by (simp_all add: mod_Suc div_Suc)
    with False lt show ?thesis by (simp add: genrand_uint32_def Let_def)
  qed
  finally show ?case .
qed


text \<open>C13: from a state whose \<open>index\<close> is \<open>N\<close> (as \<open>random.seed\<close> leaves it),
  the \<open>j\<close>-th word \<open>genrand_uint32\<close> returns is the tempered \<open>N + j\<close>-th term of
  the MT19937 recurrence started from the state's 624 words: the in-place
  refill loops refine the recurrence.\<close>

theorem genrand_uint32_stream:
  assumes len: "length (state st) = MT_N" and idx: "index st = MT_N"
  shows "rng_stream genrand_uint32 st j = tempering (mt_seq (state st) (MT_N + j))"
proof (cases j)
  case 0
  then show ?thesis using assms by (simp add: genrand_uint32_def Let_def twist_nth_seq MT_N_def)
next
  case (Suc t)
  define q where "q = t div MT_N"
  define r where "r = t mod MT_N"
  have t: "t = q * MT_N + r" by (simp add: q_def r_def)
  have r: "r < MT_N" by (simp add: r_def MT_N_def)
  have it: "rng_iter genrand_uint32 j st =
              st\<lparr>state := (twist ^^ Suc q) (state st), index := Suc r\<rparr>"
    using genrand_iter [OF idx, of t] by (simp only: Suc q_def r_def)
  show ?thesis
  proof (cases "Suc r = MT_N")
    case True
    have "MT_N + j = Suc (Suc q) * MT_N + 0" using Suc t True by simp
    moreover have "twist ((twist ^^ Suc q) (state st)) ! 0 = mt_seq (state st) (Suc (Suc q) * MT_N + 0)"
      using funpow_twist_nth [OF len, of 0 "Suc q"] by (simp add: MT_N_def)
    ultimately show ?thesis
      unfolding rng_stream_def it using True by (simp add: genrand_uint32_def Let_def)
  next
    case False
    with r have lt: "Suc r < MT_N" by simp
    have "MT_N + j = Suc q * MT_N + Suc r" using Suc t by simp
    with funpow_twist_nth [OF len lt, of q] lt show ?thesis
      unfolding rng_stream_def it by (simp add: genrand_uint32_def Let_def ac_simps)
  qed
qed


lemma key_value_chunks:
  "n < 2 ^ (32 * k) \<Longrightarrow> key_value (map (\<lambda>i. word_of_nat (n div 2 ^ (32 * i))) [0..<k]) = n"
proof (induction k arbitrary: n)
  case 0
  then show ?case by (simp add: key_value_def)
next
  case (Suc k)
  have "n div 4294967296 < 2 ^ (32 * k)"
    using Suc.prems by (simp add: div_less_iff_less_mult power_add mult.commute)
  then have ih: "key_value (map (\<lambda>i. word_of_nat (n div 4294967296 div 2 ^ (32 * i))) [0..<k])
                   = n div 4294967296"
    by (rule Suc.IH)
  have chunk: "n div 2 ^ (32 * Suc i) = n div 4294967296 div 2 ^ (32 * i)" for i
    by (simp add: power_add div_mult2_eq)
  show ?case
    unfolding map_upt_Suc chunk using ih
    by (simp add: key_value_def unat_of_nat)
qed

lemma seed_key_value: "key_value (seed_key a) = nat \<bar>a\<bar>"
proof -
  define n where "n = nat \<bar>a\<bar>"
  define bits where "bits = bit_length n"
  define k where "k = (if bits = 0 then 1 else (bits - 1) div 32 + 1)"
  have "n < 2 ^ bits" by (simp add: bits_def bit_length_less)
  also have "(2::nat) ^ bits \<le> 2 ^ (32 * k)"
    by (rule power_increasing) (auto simp: k_def)
  finally have "n < 2 ^ (32 * k)" .
  moreover have "seed_key a = map (\<lambda>i. word_of_nat (n div 2 ^ (32 * i))) [0..<k]"
    by (simp only: seed_key_def Let_def n_def bits_def k_def)
  ultimately show ?thesis by (simp add: key_value_chunks n_def)
qed

lemma seed_key_nonempty: "seed_key a \<noteq> []"
  by (simp add: seed_key_def Let_def)

theorem genrand_uint32_stream_witness:
  "length (state (random_seed \<lparr>state = replicate MT_N 0, index = 0\<rparr> 42)) = MT_N \<and>
   index (random_seed \<lparr>state = replicate MT_N 0, index = 0\<rparr> 42) = MT_N \<and>
   rng_stream genrand_uint32 (random_seed \<lparr>state = replicate MT_N 0, index = 0\<rparr> 42) 5 =
     tempering (mt_seq (state (random_seed \<lparr>state = replicate MT_N 0, index = 0\<rparr> 42)) (MT_N + 5))"
proof -
  have "length (state (random_seed \<lparr>state = replicate MT_N 0, index = 0\<rparr> 42)) = MT_N"
       "index (random_seed \<lparr>state = replicate MT_N 0, index = 0\<rparr> 42) = MT_N"
    using random_seed_shape [of "\<lparr>state = replicate MT_N 0, index = 0\<rparr>" 42] by simp_all
  with genrand_uint32_stream [OF this, of 5] show ?thesis by simp
qed

text \<open>C14: \<open>random.seed(a)\<close> and \<open>random.seed(b)\<close> build the same key for
  \<open>init_by_array\<close> exactly when \<open>|a| = |b|\<close>: the key is the little-endian
  word encoding of \<open>abs(a)\<close>, so the seeds \<open>s\<close> and \<open>-s\<close> seed identically and
  no other pair of seeds shares a key.\<close>

theorem seed_key_eq_iff: "seed_key a = seed_key b \<longleftrightarrow> \<bar>a\<bar> = \<bar>b\<bar>"
proof
  assume "seed_key a = seed_key b"
  then have "nat \<bar>a\<bar> = nat \<bar>b\<bar>" using seed_key_value [of a] seed_key_value [of b] by simp
  then show "\<bar>a\<bar> = \<bar>b\<bar>" by simp
next
  assume "\<bar>a\<bar> = \<bar>b\<bar>"
  then show "seed_key a = seed_key b" by (simp add: seed_key_def)
qed

text \<open>C15: every state a \<open>random.Random\<close> object reaches from a well-formed
  state by seeding and drawing words keeps 624 words and an index of at most
  624, so the refill and the read \<open>mt[index++]\<close> stay inside the array.\<close>

theorem mt_reach_wf: "mt_reach st0 st \<Longrightarrow> mt_wf st0 \<Longrightarrow> mt_wf st"
proof (induction rule: mt_reach.induct)
  case (seed st a)
  then show ?case using random_seed_shape [of st a] by (simp add: mt_wf_def)
next
  case (draw st)
  then show ?case by (simp add: genrand_uint32_wf)
qed

theorem mt_reach_wf_witness:
  "mt_reach \<lparr>state = replicate MT_N 0, index = 0\<rparr>
     (snd (genrand_uint32 (random_seed \<lparr>state = replicate MT_N 0, index = 0\<rparr> 42))) \<and>
   mt_wf \<lparr>state = replicate MT_N 0, index = 0\<rparr> \<and>
   mt_wf (snd (genrand_uint32 (random_seed \<lparr>state = replicate MT_N 0, index = 0\<rparr> 42)))"
proof -
  have r: "mt_reach \<lparr>state = replicate MT_N 0, index = 0\<rparr>
     (snd (genrand_uint32 (random_seed \<lparr>state = replicate MT_N 0, index = 0\<rparr> 42)))"
    by (intro mt_reach.draw mt_reach.seed mt_reach.start)
  have w: "mt_wf \<lparr>state = replicate MT_N 0, index = 0\<rparr>" by (simp add: mt_wf_def)
  from r w mt_reach_wf [OF r w] show ?thesis by simp
qed

lemma genrand_iter_no_refill:
  "index st + j \<le> MT_N \<Longrightarrow> rng_iter genrand_uint32 j st = st\<lparr>index := index st + j\<rparr>"
proof (induction j)
  case (Suc j)
  then have "index st + j < MT_N" by simp
  with Suc show ?case
    by (simp only: rng_iter_Suc_last) (simp add: genrand_uint32_def Let_def)
qed simp

text \<open>C28: from every well-formed state the generator returns the tempered
  remaining words \<open>state[index], ..., state[623]\<close> in order without touching
  the array, and exactly the next draw refills it: that draw returns the
  tempered first word of \<open>twist state\<close> and leaves the state
  \<open>(twist state, 1)\<close>.\<close>

theorem genrand_refill:
  assumes "mt_wf st"
  shows "(\<forall>i<MT_N - index st. rng_stream genrand_uint32 st i = tempering (state st ! (index st + i))) \<and>
         rng_stream genrand_uint32 st (MT_N - index st) = tempering (twist (state st) ! 0) \<and>
         rng_iter genrand_uint32 (Suc (MT_N - index st)) st = \<lparr>state = twist (state st), index = 1\<rparr>"
proof (intro conjI allI impI)
  let ?j = "MT_N - index st"
  have idx: "index st \<le> MT_N" using assms by (simp add: mt_wf_def)
  show "rng_stream genrand_uint32 st i = tempering (state st ! (index st + i))" if "i < ?j" for i
  proof -
    have "index st + i < MT_N" using that by simp
    then show ?thesis
      using genrand_iter_no_refill [of st i]
      by (simp add: rng_stream_def genrand_uint32_def Let_def)
  qed
  have at: "rng_iter genrand_uint32 ?j st = st\<lparr>index := MT_N\<rparr>"
    using genrand_iter_no_refill [of st ?j] idx by simp
  then show "rng_stream genrand_uint32 st ?j = tempering (twist (state st) ! 0)"
    by (simp add: rng_stream_def genrand_uint32_def Let_def)
  from at show "rng_iter genrand_uint32 (Suc ?j) st = \<lparr>state = twist (state st), index = 1\<rparr>"
    by (simp only: rng_iter_Suc_last) (simp add: genrand_uint32_def Let_def)
qed

theorem genrand_refill_witness:
  "mt_wf \<lparr>state = replicate MT_N 0, index = 620\<rparr> \<and>
   rng_stream genrand_uint32 \<lparr>state = replicate MT_N 0, index = 620\<rparr> 3 = tempering 0 \<and>
   rng_stream genrand_uint32 \<lparr>state = replicate MT_N 0, index = 620\<rparr> 4 =
     tempering (twist (replicate MT_N 0) ! 0) \<and>
   rng_iter genrand_uint32 5 \<lparr>state = replicate MT_N 0, index = 620\<rparr> =
     \<lparr>state = twist (replicate MT_N 0), index = 1\<rparr>"
proof -
  have w: "mt_wf \<lparr>state = replicate MT_N 0, index = 620\<rparr>" by (simp add: mt_wf_def MT_N_def)
  have j: "MT_N - index \<lparr>state = replicate MT_N 0, index = 620\<rparr> = 4" by (simp add: MT_N_def)
  from genrand_refill [OF w, unfolded j] have
    "rng_stream genrand_uint32 \<lparr>state = replicate MT_N 0, index = 620\<rparr> 3 =
       tempering (replicate MT_N 0 ! 623)"
    "rng_stream genrand_uint32 \<lparr>state = replicate MT_N 0, index = 620\<rparr> 4 =
       tempering (twist (replicate MT_N 0) ! 0)"
    "rng_iter genrand_uint32 5 \<lparr>state = replicate MT_N 0, index = 620\<rparr> =
       \<lparr>state = twist (replicate MT_N 0), index = 1\<rparr>"
    by (simp_all add: numeral_eq_Suc)
  with w show ?thesis by (simp add: MT_N_def)
qed

lemma bit_u32_high: "32 \<le> n \<Longrightarrow> \<not> bit (w :: u32) n"
  using bit_imp_le_length [of w n] by auto

lemma unshift_right_18: "(y XOR drop_bit 18 y) XOR drop_bit 18 (y XOR drop_bit 18 y) = (y :: u32)"
  by (rule bit_word_eqI) (auto simp: bit_simps bit_u32_high)

lemma unshift_right_11:
  "let z = y XOR drop_bit 11 y in z XOR drop_bit 11 z XOR drop_bit 22 z = (y :: u32)"
  by (simp add: Let_def, rule bit_word_eqI) (auto simp: bit_simps bit_u32_high)

lemma unshift_left_once:
  fixes y c :: u32
  assumes c: "\<And>n. bit c n \<Longrightarrow> s \<le> n \<Longrightarrow> \<not> bit c (n - s)"
  shows "let z = y XOR (push_bit s y AND c) in z XOR (push_bit s z AND c) = y"
  by (simp add: Let_def, rule bit_word_eqI) (auto simp: bit_simps dest: c)

lemma xor_step_diff:
  fixes x y b :: u32
  shows "((y XOR (push_bit k y AND b)) XOR (push_bit k x AND b)) XOR y = push_bit k (x XOR y) AND b"
  by (rule bit_word_eqI) (auto simp: bit_simps)

lemma take_bit_push_and:
  fixes d b :: u32
  assumes "take_bit m d = 0"
  shows "take_bit (m + k) (push_bit k d AND b) = 0"
proof (rule bit_word_eqI)
  fix n
  have "\<not> bit d i" if "i < m" for i
    using arg_cong [OF assms, of "\<lambda>w. bit w i"] that by (simp add: bit_take_bit_iff)
  then show "bit (take_bit (m + k) (push_bit k d AND b)) n = bit (0::u32) n"
    by (auto simp: bit_simps)
qed

lemma xor_eq_zero: "(a :: u32) XOR b = 0 \<Longrightarrow> a = b"
proof (rule bit_word_eqI)
  fix n
  assume "a XOR b = 0"
  then have "bit (a XOR b) n = bit (0 :: u32) n" by simp
  then show "bit a n = bit b n" by (auto simp: bit_xor_iff)
qed

lemma unshift_left_iter:
  fixes y b :: u32
  assumes z: "z = y XOR (push_bit 7 y AND b)"
  shows "z XOR (push_bit 7 (z XOR (push_bit 7 (z XOR (push_bit 7 (z XOR (push_bit 7 z AND b)) AND b))
           AND b)) AND b) = y"
proof -
  let ?f = "\<lambda>x. z XOR (push_bit 7 x AND b)"
  have step: "take_bit (m + 7) (?f x XOR y) = 0" if "take_bit m (x XOR y) = 0" for m x
    using take_bit_push_and [OF that, of 7 b] xor_step_diff [of y 7 b x] z by simp
  have "z XOR y = push_bit 7 y AND b" using z by (intro bit_word_eqI) (auto simp: bit_simps)
  then have h0: "take_bit (0 + 7) (z XOR y) = 0" using take_bit_push_and [of 0 y 7 b] by simp
  have h4: "take_bit (0 + 7 + 7 + 7 + 7 + 7) (?f (?f (?f (?f z))) XOR y) = 0"
    by (rule step step step step h0)+
  have "take_bit (0 + 7 + 7 + 7 + 7 + 7) w = w" for w :: u32
    by (simp add: take_bit_word_beyond_length_eq)
  then have "?f (?f (?f (?f z))) XOR y = 0" using h4 by (simp only:)
  then show ?thesis by (rule xor_eq_zero)
qed

lemma mask_c_low: "take_bit 17 (0xefc60000 :: u32) = 0" by simp
lemma mask_c_bits: "bit (0xefc60000 :: u32) n \<Longrightarrow> 17 \<le> n"
proof (rule ccontr)
  assume b: "bit (0xefc60000 :: u32) n" "\<not> 17 \<le> n"
  then have "bit (take_bit 17 (0xefc60000 :: u32)) n"
    by (simp only: bit_take_bit_iff not_le simp_thms)
  then show False by (simp add: mask_c_low)
qed

text \<open>C29: tempering is invertible: \<open>untempering\<close> recovers every 32-bit word
  from its tempered value, so \<open>genrand_uint32\<close> maps distinct state words to
  distinct outputs and its output determines the state word it read.\<close>

theorem tempering_roundtrip: "untempering (tempering y) = y"
proof -
  define y1 where "y1 = y XOR drop_bit 11 y"
  define y2 where "y2 = y1 XOR (push_bit 7 y1 AND 0x9d2c5680)"
  define y3 where "y3 = y2 XOR (push_bit 15 y2 AND 0xefc60000)"
  have t: "tempering y = y3 XOR drop_bit 18 y3" by (simp add: tempering_def y1_def y2_def y3_def Let_def)
  have u3: "(y3 XOR drop_bit 18 y3) XOR drop_bit 18 (y3 XOR drop_bit 18 y3) = y3"
    by (rule unshift_right_18)
  have c: "\<not> bit (0xefc60000 :: u32) (n - 15)" if "bit (0xefc60000 :: u32) n" "15 \<le> n" for n
  proof
    assume "bit (0xefc60000 :: u32) (n - 15)"
    with that show False using mask_c_bits [of n] mask_c_bits [of "n - 15"] bit_u32_high [of n] by auto
  qed
  have u2: "y3 XOR (push_bit 15 y3 AND 0xefc60000) = y2"
    using unshift_left_once [of "0xefc60000" 15 y2, OF c] by (simp add: y3_def Let_def)
  have u1: "y2 XOR (push_bit 7 (y2 XOR (push_bit 7 (y2 XOR (push_bit 7 (y2 XOR (push_bit 7 y2 AND 0x9d2c5680))
              AND 0x9d2c5680)) AND 0x9d2c5680)) AND 0x9d2c5680) = y1"
    by (rule unshift_left_iter) (simp add: y2_def)
  have u0: "y1 XOR drop_bit 11 y1 XOR drop_bit 22 y1 = y"
    using unshift_right_11 [of y] by (simp add: y1_def Let_def)
  show ?thesis
    unfolding untempering_def t Let_def u3 u2 u1 u0 ..
qed

end
