(* ===== verification/Script.thy ===== *)
theory Script
  imports Generator MersenneTwister
begin

text \<open>
  The generator script as a whole (\<open>src/scripts/gen_random_3sat.py\<close>): line 2
  reads the four arguments from \<open>sys.argv\<close>, line 3 seeds the module-level
  Mersenne Twister, and lines 4-13 write the instance to the file named by the
  fourth argument. The file system is a map from paths to contents;
  \<open>open(path, "w")\<close> truncates the file, and the \<open>with\<close> block flushes what
  was written when it is left, normally or by an exception.
\<close>

subsection \<open>Definitions\<close>

type_synonym fs = "string \<Rightarrow> string option"

text \<open>\<open>sys.argv[i]\<close>: \<open>IndexError\<close> past the end of the list.\<close>

definition argv_item :: "string list \<Rightarrow> nat \<Rightarrow> pyexc + string" where
  "argv_item argv i = (if i < length argv then Inr (argv ! i) else Inl IndexError)"

definition int_arg :: "string list \<Rightarrow> nat \<Rightarrow> pyexc + int" where
  "int_arg argv i = (case argv_item argv i of Inl e \<Rightarrow> Inl e | Inr a \<Rightarrow> py_int a)"

text \<open>Line 2: the tuple on the right is evaluated left to right, so the first
  failing item decides the exception.\<close>

definition parse_args :: "string list \<Rightarrow> pyexc + (int \<times> int \<times> int \<times> string)" where
  "parse_args argv =
     (case int_arg argv 1 of
        Inl e \<Rightarrow> Inl e
      | Inr n \<Rightarrow>
          (case int_arg argv 2 of
             Inl e \<Rightarrow> Inl e
           | Inr m \<Rightarrow>
               (case int_arg argv 3 of
                  Inl e \<Rightarrow> Inl e
                | Inr seed \<Rightarrow>
                    (case argv_item argv 4 of
                       Inl e \<Rightarrow> Inl e
                     | Inr path \<Rightarrow> Inr (n, m, seed, path)))))"

text \<open>The whole script from the state \<open>st\<close> of the module-level generator
  and the file system \<open>fs\<close>: the final generator state and file system, or
  the exception with the state at the raise, or \<open>None\<close> when it never
  ends.\<close>

definition run_script :: "string list \<Rightarrow> mt_state \<Rightarrow> fs \<Rightarrow> (unit, mt_state \<times> fs) pyres" where
  "run_script argv st fs =
     (case parse_args argv of
        Inl e \<Rightarrow> Some (Inl e, (st, fs))
      | Inr (n, m, seed, path) \<Rightarrow>
          (case gen_cnf genrand_uint32 n m (random_seed st seed) of
             None \<Rightarrow> None
           | Some (r, (st', out)) \<Rightarrow> Some (r, (st', fs(path \<mapsto> out)))))"

subsection \<open>Lemmas\<close>

lemma init_genrand_loop_prefix:
  "length xs = MT_N \<Longrightarrow> length ys = MT_N \<Longrightarrow> 0 < i \<Longrightarrow> take i xs = take i ys \<Longrightarrow>
   init_genrand_loop i xs = init_genrand_loop i ys"
proof (induction i xs arbitrary: ys rule: init_genrand_loop.induct)
  case (1 i xs)
  show ?case
  proof (cases "i < MT_N")
    case True
    have "xs ! (i - 1) = ys ! (i - 1)"
      using "1.prems" nth_take [of "i - 1" i xs] nth_take [of "i - 1" i ys] by simp
    moreover have "take (Suc i) (xs[i := v]) = take (Suc i) (ys[i := v])" for v
    proof (cases "i < length xs")
      case True
      with "1.prems" show ?thesis by (simp add: take_Suc_conv_app_nth take_update_cancel)
    next
      case False
      with "1.prems" True have "xs = ys" by simp
      then show ?thesis by simp
    qed
    ultimately show ?thesis
      using "1.IH" [OF True] "1.prems" True
      by (subst (1 2) init_genrand_loop.simps) simp
  next
    case False
    then show ?thesis using "1.prems" by (subst (1 2) init_genrand_loop.simps) simp
  qed
qed

lemma random_seed_fresh:
  "length (state st1) = MT_N \<Longrightarrow> length (state st2) = MT_N \<Longrightarrow>
   random_seed st1 a = random_seed st2 a"
proof -
  assume len: "length (state st1) = MT_N" "length (state st2) = MT_N"
  have "init_genrand_loop 1 ((state st1)[0 := s]) = init_genrand_loop 1 ((state st2)[0 := s])" for s
    using len by (intro init_genrand_loop_prefix) (cases "state st1"; cases "state st2"; simp)+
  then show ?thesis
    by (cases st1, cases st2) (simp add: random_seed_def init_by_array_def init_genrand_def Let_def)
qed

lemma parse_args_eval [eval_simps]:
  "parse_args [''gen'', ''3'', ''0'', ''42'', ''out.cnf''] = Inr (3, 0, 42, ''out.cnf'')"
  "parse_args [''gen'', ''3'', ''2'', ''42'', ''out.cnf''] = Inr (3, 2, 42, ''out.cnf'')"
  "parse_args [''gen'', ''3'', ''2'', ''-42'', ''out.cnf''] = Inr (3, 2, -42, ''out.cnf'')"
  "parse_args [''gen'', ''3''] = Inl IndexError"
  "parse_args [''gen'', ''x3'', ''2''] = Inl ValueError"
  by code_simp+

lemma random_seed_neg: "random_seed st (- a) = random_seed st a"
  by (simp add: random_seed_def seed_key_def)

lemma parse_args_IndexError:
  assumes "length argv < 5" "\<forall>i. 0 < i \<and> i < length argv \<longrightarrow> (\<exists>v. py_int (argv ! i) = Inr v)"
  shows "parse_args argv = Inl IndexError"
proof -
  have ok: "int_arg argv i = Inr (SOME v. py_int (argv ! i) = Inr v)" if "0 < i" "i < length argv" for i
    using assms(2) that someI_ex [of "\<lambda>v. py_int (argv ! i) = Inr v"]
    by (auto simp: int_arg_def argv_item_def)
  have out: "argv_item argv i = Inl IndexError" "int_arg argv i = Inl IndexError"
    if "length argv \<le> i" for i
    using that by (simp_all add: int_arg_def argv_item_def)
  consider "length argv \<le> 1" | "length argv = 2" | "length argv = 3" | "length argv = 4"
    using assms(1) by linarith
  then show ?thesis
    by cases (simp_all add: parse_args_def ok out)
qed

lemma run_script_returns:
  assumes "run_script argv st fs = Some (Inr (), (st', fs'))"
  shows "\<exists>n m seed path cs. parse_args argv = Inr (n, m, seed, path) \<and>
           fs' = fs(path \<mapsto> header n m @ concat (map format_clause cs)) \<and> length cs = nat m \<and>
           (\<forall>c\<in>set cs. length c = 3 \<and> distinct c \<and> (\<forall>l\<in>set c. l \<noteq> 0 \<and> \<bar>l\<bar> \<le> n))"
proof (cases "parse_args argv")
  case (Inl e)
  with assms show ?thesis by (simp add: run_script_def)
next
  case (Inr a)
  then obtain n m seed path where a: "parse_args argv = Inr (n, m, seed, path)"
    by (cases a) auto
  with assms obtain out where
    g: "gen_cnf genrand_uint32 n m (random_seed st seed) = Some (Inr (), (st', out))" and
    f: "fs' = fs(path \<mapsto> out)"
    by (auto simp: run_script_def split: option.splits prod.splits)
  from write_clauses_returns [OF g [unfolded gen_cnf_def]] obtain cs where
    "length cs = nat m" "out = header n m @ concat (map format_clause cs)"
    "\<forall>c\<in>set cs. length c = 3 \<and> distinct c \<and> lits_ok n c"
    by blast
  with a f show ?thesis by (auto simp: lits_ok_def)
qed

text \<open>C16: a run of the script that returns has written, at the path given
  as the fourth argument, the header \<open>p cnf n m\<close> for the first two arguments
  and \<open>max m 0\<close> clause lines of three distinct non-zero literals of absolute
  value at most \<open>n\<close>; no other file changes.\<close>

theorem run_script_output:
  assumes "run_script argv st fs = Some (Inr (), (st', fs'))"
  shows "\<exists>n m seed path cs. parse_args argv = Inr (n, m, seed, path) \<and>
           fs' = fs(path \<mapsto> header n m @ concat (map format_clause cs)) \<and> length cs = nat m \<and>
           (\<forall>c\<in>set cs. length c = 3 \<and> distinct c \<and> (\<forall>l\<in>set c. l \<noteq> 0 \<and> \<bar>l\<bar> \<le> n))"
  using run_script_returns [OF assms] .

theorem run_script_output_witness:
  "\<exists>n m seed path cs. parse_args [''gen'', ''3'', ''0'', ''42'', ''out.cnf''] = Inr (n, m, seed, path) \<and>
     [''out.cnf'' \<mapsto> ''p cnf 3 0\<newline>''] = Map.empty(path \<mapsto> header n m @ concat (map format_clause cs)) \<and>
     length cs = nat m \<and>
     (\<forall>c\<in>set cs. length c = 3 \<and> distinct c \<and> (\<forall>l\<in>set c. l \<noteq> 0 \<and> \<bar>l\<bar> \<le> n))"
proof -
  have "run_script [''gen'', ''3'', ''0'', ''42'', ''out.cnf''] \<lparr>state = replicate MT_N 0, index = 0\<rparr> Map.empty
          = Some (Inr (), (random_seed \<lparr>state = replicate MT_N 0, index = 0\<rparr> 42,
                           [''out.cnf'' \<mapsto> ''p cnf 3 0\<newline>'']))"
    by (simp add: run_script_def parse_args_eval eval_simps cong: eval_cong)
  from run_script_output [OF this] show ?thesis .
qed

text \<open>C17: the result of a run, the file written included, does not depend
  on the state of the generator before line 3: \<open>random.seed\<close> overwrites all
  624 words and the index, so the same arguments give the same bytes
  whatever the interpreter seeded at start-up.\<close>

theorem run_script_deterministic:
  assumes "length (state st1) = MT_N" "length (state st2) = MT_N" "parse_args argv = Inr a"
  shows "run_script argv st1 fs = run_script argv st2 fs"
proof -
  obtain n m seed path where "a = (n, m, seed, path)" by (cases a) auto
  with assms show ?thesis by (simp add: run_script_def random_seed_fresh [OF assms(1,2)])
qed

theorem run_script_deterministic_witness:
  "length (state \<lparr>state = replicate MT_N 0, index = 0\<rparr>) = MT_N \<and>
   length (state \<lparr>state = replicate MT_N 7, index = 100\<rparr>) = MT_N \<and>
   parse_args [''gen'', ''3'', ''2'', ''42'', ''out.cnf''] = Inr (3, 2, 42, ''out.cnf'') \<and>
   run_script [''gen'', ''3'', ''2'', ''42'', ''out.cnf''] \<lparr>state = replicate MT_N 0, index = 0\<rparr> Map.empty =
   run_script [''gen'', ''3'', ''2'', ''42'', ''out.cnf''] \<lparr>state = replicate MT_N 7, index = 100\<rparr> Map.empty"
  using run_script_deterministic [of "\<lparr>state = replicate MT_N 0, index = 0\<rparr>"
      "\<lparr>state = replicate MT_N 7, index = 100\<rparr>" "[''gen'', ''3'', ''2'', ''42'', ''out.cnf'']"
      "(3, 2, 42, ''out.cnf'')" Map.empty]
  by (simp add: parse_args_eval)

text \<open>C18: the seeds \<open>s\<close> and \<open>-s\<close> give the same run and the same file:
  \<open>random.seed\<close> seeds with \<open>abs(s)\<close>. Distinct seeds do not always give
  distinct instances.\<close>

theorem run_script_seed_sign:
  assumes "parse_args argv = Inr (n, m, seed, path)" "parse_args argv' = Inr (n, m, - seed, path)"
  shows "run_script argv st fs = run_script argv' st fs"
  using assms by (simp add: run_script_def random_seed_neg)

theorem run_script_seed_sign_witness:
  "parse_args [''gen'', ''3'', ''2'', ''42'', ''out.cnf''] = Inr (3, 2, 42, ''out.cnf'') \<and>
   parse_args [''gen'', ''3'', ''2'', ''-42'', ''out.cnf''] = Inr (3, 2, - 42, ''out.cnf'') \<and>
   run_script [''gen'', ''3'', ''2'', ''42'', ''out.cnf''] \<lparr>state = replicate MT_N 0, index = 0\<rparr> Map.empty =
   run_script [''gen'', ''3'', ''2'', ''-42'', ''out.cnf''] \<lparr>state = replicate MT_N 0, index = 0\<rparr> Map.empty"
  using run_script_seed_sign [of "[''gen'', ''3'', ''2'', ''42'', ''out.cnf'']" 3 2 42 "''out.cnf''"
      "[''gen'', ''3'', ''2'', ''-42'', ''out.cnf'']" "\<lparr>state = replicate MT_N 0, index = 0\<rparr>" Map.empty]
  by (simp add: parse_args_eval)

text \<open>C19: with fewer than four arguments whose numbers all parse, line 2
  raises \<open>IndexError\<close>; the generator is not seeded and no file is opened.\<close>

theorem run_script_missing_args:
  assumes "length argv < 5" "\<forall>i. 0 < i \<and> i < length argv \<longrightarrow> (\<exists>v. py_int (argv ! i) = Inr v)"
  shows "run_script argv st fs = Some (Inl IndexError, (st, fs))"
  using parse_args_IndexError [OF assms] by (simp add: run_script_def)

theorem run_script_missing_args_witness:
  "length [''gen'', ''3''] < 5 \<and> py_int ([''gen'', ''3''] ! 1) = Inr 3 \<and>
   run_script [''gen'', ''3''] \<lparr>state = replicate MT_N 0, index = 0\<rparr> Map.empty =
     Some (Inl IndexError, (\<lparr>state = replicate MT_N 0, index = 0\<rparr>, Map.empty))"
proof -
  have "py_int ''3'' = Inr 3" by code_simp
  then have h: "\<forall>i. 0 < i \<and> i < length [''gen'', ''3''] \<longrightarrow> (\<exists>v. py_int ([''gen'', ''3''] ! i) = Inr v)"
    by (auto simp: less_Suc_eq)
  from run_script_missing_args [OF _ h] \<open>py_int ''3'' = Inr 3\<close> show ?thesis by simp
qed

text \<open>C20: an argument that \<open>int()\<close> rejects raises \<open>ValueError\<close> on line 2,
  before the generator is seeded and before the file is opened, even when
  later arguments are missing.\<close>

theorem run_script_bad_n:
  assumes "1 < length argv" "py_int (argv ! 1) = Inl e"
  shows "run_script argv st fs = Some (Inl e, (st, fs))"
  using assms by (simp add: run_script_def parse_args_def int_arg_def argv_item_def)

theorem run_script_bad_n_witness:
  "1 < length [''gen'', ''x3'', ''2''] \<and> py_int ([''gen'', ''x3'', ''2''] ! 1) = Inl ValueError \<and>
   run_script [''gen'', ''x3'', ''2''] \<lparr>state = replicate MT_N 0, index = 0\<rparr> Map.empty =
     Some (Inl ValueError, (\<lparr>state = replicate MT_N 0, index = 0\<rparr>, Map.empty))"
proof -
  have "py_int ''x3'' = Inl ValueError" by code_simp
  with run_script_bad_n [of "[''gen'', ''x3'', ''2'']" ValueError] show ?thesis by simp
qed

end
