(* ===== verification/Dimacs.thy ===== *)
theory Dimacs
  imports Script
begin

text \<open>
  The DIMACS CNF format the generator writes, as a reader: the header line
  \<open>p cnf N M\<close>, then one line per clause listing its literals and a closing
  \<open>0\<close>, tokens separated by one space and lines ended by a newline. The reader
  is specification-side (the repository has none; the format is the one the
  spec's glossary names); the lemmas show that what \<open>gen_random_3sat.py\<close> writes
  reads back as exactly the header and clauses it drew.
\<close>

subsection \<open>Definitions\<close>

text \<open>\<open>s.split(c)\<close> for a one-character separator.\<close>

fun split_on :: "char \<Rightarrow> string \<Rightarrow> string list" where
  "split_on c [] = [[]]"
| "split_on c (x # xs) =
     (if x = c then [] # split_on c xs
      else (case split_on c xs of [] \<Rightarrow> [[x]] | w # ws \<Rightarrow> (x # w) # ws))"

text \<open>An integer token: an optional minus sign and one or more decimal digits.\<close>

definition dimacs_int :: "string \<Rightarrow> int option" where
  "dimacs_int t =
     (let (neg, ds) = (if t \<noteq> [] \<and> hd t = CHR ''-'' then (True, tl t) else (False, t))
      in if ds \<noteq> [] \<and> (\<forall>c\<in>set ds. is_digit c)
         then Some (if neg then - int (digits_value ds) else int (digits_value ds))
         else None)"

definition dimacs_lit :: "string \<Rightarrow> int option" where
  "dimacs_lit t = (case dimacs_int t of Some l \<Rightarrow> if l = 0 then None else Some l | None \<Rightarrow> None)"

definition parse_header :: "string \<Rightarrow> (int \<times> int) option" where
  "parse_header l =
     (case split_on CHR '' '' l of
        [p, f, a, b] \<Rightarrow>
          (if p = ''p'' \<and> f = ''cnf''
           then (case (dimacs_int a, dimacs_int b) of
                   (Some n, Some m) \<Rightarrow> Some (n, m)
                 | _ \<Rightarrow> None)
           else None)
      | _ \<Rightarrow> None)"

definition parse_clause :: "string \<Rightarrow> int list option" where
  "parse_clause l =
     (let toks = split_on CHR '' '' l
      in if last toks = ''0'' then those (map dimacs_lit (butlast toks)) else None)"

definition parse_dimacs :: "string \<Rightarrow> (int \<times> int \<times> int list list) option" where
  "parse_dimacs txt =
     (case split_on CHR ''\<newline>'' txt of
        [] \<Rightarrow> None
      | hl # rest \<Rightarrow>
          (if rest \<noteq> [] \<and> last rest = []
           then (case parse_header hl of
                   None \<Rightarrow> None
                 | Some (n, m) \<Rightarrow> map_option (\<lambda>cs. (n, m, cs)) (those (map parse_clause (butlast rest))))
           else None))"

text \<open>A well-formed 3-SAT instance over variables \<open>1..n\<close> with \<open>m\<close> clauses.\<close>

definition cnf3_ok :: "int \<Rightarrow> int \<Rightarrow> int list list \<Rightarrow> bool" where
  "cnf3_ok n m cs \<longleftrightarrow> length cs = nat m \<and>
     (\<forall>c\<in>set cs. length c = 3 \<and> distinct c \<and> (\<forall>l\<in>set c. 0 < \<bar>l\<bar> \<and> \<bar>l\<bar> \<le> n))"

subsection \<open>Lemmas\<close>

lemma split_on_append:
  "c \<notin> set w \<Longrightarrow> split_on c (w @ c # rest) = w # split_on c rest"
  by (induction w) auto

lemma split_on_no_sep: "c \<notin> set w \<Longrightarrow> split_on c w = [w]"
  by (induction w) auto

lemma split_on_join:
  "\<forall>w\<in>set ws. c \<notin> set w \<Longrightarrow> ws \<noteq> [] \<Longrightarrow> split_on c (join [c] ws) = ws"
proof (induction "[c]" ws rule: join.induct)
  case (2 x)
  then show ?case by (simp add: split_on_no_sep)
next
  case (3 x y xs)
  then show ?case by (simp add: split_on_append)
qed simp

lemma str_nat_code: "c \<in> set (str_nat k) \<Longrightarrow> 48 \<le> (of_char c :: nat)"
  by (auto dest!: str_nat_chars simp: of_char_digit_char)

lemma str_nat_no_sep:
  "CHR '' '' \<notin> set (str_nat k)" "CHR ''\<newline>'' \<notin> set (str_nat k)" "CHR ''-'' \<notin> set (str_nat k)"
  by (auto dest!: str_nat_code)

lemma str_int_no_sep: "CHR '' '' \<notin> set (str_int i)" "CHR ''\<newline>'' \<notin> set (str_int i)"
  by (simp_all add: str_int_def str_nat_no_sep)

lemma dimacs_int_str_int: "dimacs_int (str_int i) = Some i"
proof -
  have d: "str_nat k \<noteq> [] \<and> (\<forall>c\<in>set (str_nat k). is_digit c)" for k
    using str_nat_all_digits [of k] by simp
  have h: "hd (str_nat k) \<noteq> CHR ''-''" for k
    using str_nat_no_sep(3) [of k] hd_in_set [OF str_nat_nonempty, of k] by metis
  show ?thesis
    using d h by (auto simp: dimacs_int_def str_int_def digits_value_str_nat Let_def)
qed

lemma join_snoc: "xs \<noteq> [] \<Longrightarrow> join sep (xs @ [y]) = join sep xs @ sep @ y"
  by (induction sep xs rule: join.induct) simp_all

lemma those_map_Some: "\<forall>x\<in>set xs. f x = Some x \<Longrightarrow> those (map f xs) = Some xs"
  by (induction xs) simp_all

text \<open>The line of a clause without its newline.\<close>

lemma format_clause_line:
  "c \<noteq> [] \<Longrightarrow> format_clause c = join '' '' (map str_int c @ [''0'']) @ [CHR ''\<newline>'']"
  by (simp add: format_clause_def join_snoc)

lemma dimacs_lit_str_int: "l \<noteq> 0 \<Longrightarrow> dimacs_lit (str_int l) = Some l"
  by (simp add: dimacs_lit_def dimacs_int_str_int)

lemma parse_clause_line:
  assumes "c \<noteq> []" "0 \<notin> set c"
  shows "parse_clause (join '' '' (map str_int c @ [''0''])) = Some c"
proof -
  have "split_on CHR '' '' (join '' '' (map str_int c @ [''0''])) = map str_int c @ [''0'']"
    by (rule split_on_join) (auto simp: str_int_no_sep)
  moreover have "those (map dimacs_lit (map str_int c)) = Some c"
  proof -
    have "those (map (dimacs_lit \<circ> str_int) c) = Some c"
      using assms(2) by (intro those_map_Some) (metis comp_apply dimacs_lit_str_int)
    then show ?thesis by simp
  qed
  ultimately show ?thesis by (simp add: parse_clause_def)
qed

lemma no_newline_join:
  "\<forall>w\<in>set ws. CHR ''\<newline>'' \<notin> set w \<Longrightarrow> CHR ''\<newline>'' \<notin> set (join '' '' ws)"
  by (induction "'' ''" ws rule: join.induct) auto

lemma split_lines_clauses:
  assumes "\<forall>c\<in>set cs. c \<noteq> []"
  shows "split_on CHR ''\<newline>'' (concat (map format_clause cs)) =
           map (\<lambda>c. join '' '' (map str_int c @ [''0''])) cs @ [[]]"
  using assms
proof (induction cs)
  case (Cons c cs)
  have "CHR ''\<newline>'' \<notin> set (join '' '' (map str_int c @ [''0'']))"
    by (rule no_newline_join) (auto simp: str_int_no_sep)
  with Cons show ?case by (simp add: format_clause_line split_on_append)
qed simp

lemma parse_header_line:
  "parse_header (''p cnf '' @ str_int n @ '' '' @ str_int m) = Some (n, m)"
proof -
  have "''p cnf '' @ str_int n @ '' '' @ str_int m = join '' '' [''p'', ''cnf'', str_int n, str_int m]"
    by simp
  moreover have "split_on CHR '' '' (join '' '' [''p'', ''cnf'', str_int n, str_int m]) =
                   [''p'', ''cnf'', str_int n, str_int m]"
    by (rule split_on_join) (auto simp: str_int_no_sep)
  ultimately show ?thesis by (simp add: parse_header_def dimacs_int_str_int)
qed

lemma parse_dimacs_written:
  assumes "\<forall>c\<in>set cs. c \<noteq> [] \<and> 0 \<notin> set c"
  shows "parse_dimacs (header n m @ concat (map format_clause cs)) = Some (n, m, cs)"
proof -
  let ?hl = "''p cnf '' @ str_int n @ '' '' @ str_int m"
  have nl: "CHR ''\<newline>'' \<notin> set ?hl" by (simp add: str_int_no_sep)
  have eq: "header n m @ concat (map format_clause cs) =
              ?hl @ CHR ''\<newline>'' # concat (map format_clause cs)"
    by (simp add: header_def)
  have "split_on CHR ''\<newline>'' (header n m @ concat (map format_clause cs)) =
               ?hl # (map (\<lambda>c. join '' '' (map str_int c @ [''0''])) cs @ [[]])"
    unfolding eq split_on_append [OF nl] using assms by (simp add: split_lines_clauses)
  moreover have "those (map parse_clause (map (\<lambda>c. join '' '' (map str_int c @ [''0''])) cs)) = Some cs"
  proof -
    have "those (map (parse_clause \<circ> (\<lambda>c. join '' '' (map str_int c @ [''0'']))) cs) = Some cs"
      using assms by (intro those_map_Some) (simp add: parse_clause_line)
    then show ?thesis by simp
  qed
  ultimately show ?thesis using parse_header_line [of n m] by (simp add: parse_dimacs_def)
qed

text \<open>C21: the text the generator writes is DIMACS that reads back as exactly
  the header values and the clauses, in order, whenever no clause is empty or
  holds the literal 0 (the terminator).\<close>

theorem dimacs_roundtrip:
  assumes "\<forall>c\<in>set cs. c \<noteq> [] \<and> 0 \<notin> set c"
  shows "parse_dimacs (header n m @ concat (map format_clause cs)) = Some (n, m, cs)"
  using parse_dimacs_written [OF assms] .

theorem dimacs_roundtrip_witness:
  "0 \<notin> set [1, 2, -2 :: int] \<and> 0 \<notin> set [1, 2, -3 :: int] \<and>
   parse_dimacs (header 3 2 @ concat (map format_clause [[1, 2, -2], [1, 2, -3]])) =
     Some (3, 2, [[1, 2, -2], [1, 2, -3]])"
  using dimacs_roundtrip [of "[[1, 2, -2], [1, 2, -3]]" 3 2] by simp

text \<open>C22: every file the script finishes is a DIMACS 3-SAT instance: it reads
  back with the header \<open>p cnf n m\<close> of the first two arguments and \<open>max m 0\<close>
  clauses of three distinct non-zero literals over the variables \<open>1..n\<close>.\<close>

theorem run_script_dimacs:
  assumes "run_script argv st fs = Some (Inr (), (st', fs'))"
  shows "\<exists>n m seed path txt cs. parse_args argv = Inr (n, m, seed, path) \<and> fs' path = Some txt \<and>
           parse_dimacs txt = Some (n, m, cs) \<and> cnf3_ok n m cs"
proof -
  from run_script_returns [OF assms] obtain n m seed path cs where
    a: "parse_args argv = Inr (n, m, seed, path)" and
    f: "fs' = fs(path \<mapsto> header n m @ concat (map format_clause cs))" and
    l: "length cs = nat m" and
    c: "\<forall>c\<in>set cs. length c = 3 \<and> distinct c \<and> (\<forall>l\<in>set c. l \<noteq> 0 \<and> \<bar>l\<bar> \<le> n)"
    by blast
  from c have "\<forall>c\<in>set cs. c \<noteq> [] \<and> 0 \<notin> set c" by fastforce
  from parse_dimacs_written [OF this] have "parse_dimacs (header n m @ concat (map format_clause cs)) = Some (n, m, cs)" .
  moreover have "cnf3_ok n m cs" using l c by (auto simp: cnf3_ok_def)
  ultimately show ?thesis using a f by auto
qed

theorem run_script_dimacs_witness:
  "\<exists>n m seed path txt cs. parse_args [''gen'', ''3'', ''0'', ''42'', ''out.cnf''] = Inr (n, m, seed, path) \<and>
     [''out.cnf'' \<mapsto> ''p cnf 3 0\<newline>''] path = Some txt \<and>
     parse_dimacs txt = Some (n, m, cs) \<and> cnf3_ok n m cs"
proof -
  have "run_script [''gen'', ''3'', ''0'', ''42'', ''out.cnf''] \<lparr>state = replicate MT_N 0, index = 0\<rparr> Map.empty
          = Some (Inr (), (random_seed \<lparr>state = replicate MT_N 0, index = 0\<rparr> 42,
                           [''out.cnf'' \<mapsto> ''p cnf 3 0\<newline>'']))"
    by (simp add: run_script_def parse_args_eval eval_simps cong: eval_cong)
  from run_script_dimacs [OF this] show ?thesis .
qed

end
