(* ===== verification/Plotter.thy ===== *)
theory Plotter
  imports Dimacs
begin

text \<open>
  The result plotter \<open>src/plot/results_plot.py\<close>: read a CSV table named by
  \<open>sys.argv[1]\<close> with pandas, plot its \<open>time_sec\<close> column against its
  \<open>vars\<close> column with pyplot, label the axes and the title, and save the
  figure to \<open>sys.argv[2]\<close>. The library calls are modelled as far as the
  script's behaviour depends on them:
  \<^item> \<open>pd.read_csv\<close>: comma-separated text, lines ended by a newline, blank
    lines skipped, the first line the header; a missing trailing field is NaN
    (\<open>None\<close>); when the first data row has more fields than the header, the
    extra leading fields form the row index (pandas' implicit index) and a
    later row longer than the first raises \<open>ParserError\<close>;
    an empty file raises \<open>EmptyDataError\<close>; a missing file
    \<open>FileNotFoundError\<close>; a file that is not text a \<open>ValueError\<close>
    (\<open>UnicodeDecodeError\<close>). Cells are kept as their text: pandas' type
    inference and quoting are not modelled.
  \<^item> \<open>df[name]\<close>: the first column with that name (pandas renames later
    duplicates), \<open>KeyError(name)\<close> when there is none.
  \<^item> pyplot's current figure: created on first use, \<open>plot\<close> adds a line
    (\<open>ValueError\<close> when x and y differ in length), \<open>xlabel\<close>, \<open>ylabel\<close>,
    \<open>title\<close> set text, \<open>savefig\<close> writes the figure in the format named by
    the file's extension, \<open>ValueError\<close> for a format the Agg backend does
    not support; a name without extension is saved as \<open>png\<close> at
    \<open>name.rstrip('.') + '.png'\<close> (\<open>save_target\<close>).
  Pixels are not modelled: a saved image is the format and the figure.
\<close>

subsection \<open>Definitions\<close>

type_synonym cell = "string option"

text \<open>A DataFrame as its columns in order, each a name and its cells.\<close>

type_synonym frame = "(string \<times> cell list) list"

record figure =
  lines :: "(cell list \<times> cell list) list"
  xlabel :: string
  ylabel :: string
  title :: string

datatype fcontent = Text string | Picture string figure

type_synonym pfs = "string \<Rightarrow> fcontent option"

definition csv_lines :: "string \<Rightarrow> string list" where
  "csv_lines txt = filter (\<lambda>l. l \<noteq> []) (split_on CHR ''\<newline>'' txt)"

text \<open>The columns of the data rows \<open>rows\<close> under the header \<open>names\<close>, after
  \<open>off\<close> index fields.\<close>

definition csv_frame :: "string list \<Rightarrow> nat \<Rightarrow> string list list \<Rightarrow> frame" where
  "csv_frame names off rows =
     map (\<lambda>i. (names ! i, map (\<lambda>r. if off + i < length r then Some (r ! (off + i)) else None) rows))
       [0..<length names]"

definition read_csv :: "pfs \<Rightarrow> string \<Rightarrow> pyexc + frame" where
  "read_csv fs path =
     (case fs path of
        None \<Rightarrow> Inl FileNotFoundError
      | Some (Picture _ _) \<Rightarrow> Inl ValueError
      | Some (Text txt) \<Rightarrow>
          (case csv_lines txt of
             [] \<Rightarrow> Inl EmptyDataError
           | h # rows \<Rightarrow>
               (let names = split_on CHR '','' h; cells = map (split_on CHR '','') rows;
                    off = (case cells of [] \<Rightarrow> 0 | r # _ \<Rightarrow> length r - length names)
                in if list_ex (\<lambda>r. length names + off < length r) cells then Inl ParserError
                   else Inr (csv_frame names off cells))))"

definition column :: "frame \<Rightarrow> string \<Rightarrow> pyexc + cell list" where
  "column df name = (case map_of df name of None \<Rightarrow> Inl (KeyError name) | Some cs \<Rightarrow> Inr cs)"

definition new_figure :: figure where
  "new_figure = \<lparr>lines = [], xlabel = [], ylabel = [], title = []\<rparr>"

text \<open>\<open>plt.gcf()\<close>: the current figure, a new one when there is none.\<close>

definition gcf :: "figure option \<Rightarrow> figure" where
  "gcf p = (case p of None \<Rightarrow> new_figure | Some f \<Rightarrow> f)"

definition plt_plot :: "figure option \<Rightarrow> cell list \<Rightarrow> cell list \<Rightarrow> (pyexc + unit) \<times> figure option" where
  "plt_plot p xs ys =
     (let f = gcf p
      in if length xs = length ys then (Inr (), Some (f\<lparr>lines := lines f @ [(xs, ys)]\<rparr>))
         else (Inl ValueError, Some f))"

definition plt_xlabel :: "figure option \<Rightarrow> string \<Rightarrow> figure option" where
  "plt_xlabel p s = Some ((gcf p)\<lparr>xlabel := s\<rparr>)"

definition plt_ylabel :: "figure option \<Rightarrow> string \<Rightarrow> figure option" where
  "plt_ylabel p s = Some ((gcf p)\<lparr>ylabel := s\<rparr>)"

definition plt_title :: "figure option \<Rightarrow> string \<Rightarrow> figure option" where
  "plt_title p s = Some ((gcf p)\<lparr>title := s\<rparr>)"

text \<open>\<open>os.path.splitext(path)[1][1:]\<close>: the text after the last dot of the last
  path component, when a character other than a dot precedes that dot.\<close>

definition path_ext :: "string \<Rightarrow> string" where
  "path_ext path =
     (let base = rev (takeWhile (\<lambda>c. c \<noteq> CHR ''/'') (rev path));
          body = dropWhile (\<lambda>c. c = CHR ''.'') base
      in if CHR ''.'' \<in> set body then rev (takeWhile (\<lambda>c. c \<noteq> CHR ''.'') (rev body)) else [])"

definition lower_char :: "char \<Rightarrow> char" where
  "lower_char c =
     (if (65::nat) \<le> of_char c \<and> of_char c \<le> (90::nat) then char_of (of_char c + (32::nat)) else c)"

definition image_format :: "string \<Rightarrow> string" where
  "image_format path = (let e = path_ext path in if e = [] then ''png'' else map lower_char e)"

definition savefig_formats :: "string list" where
  "savefig_formats = [''eps'', ''jpeg'', ''jpg'', ''pdf'', ''pgf'', ''png'', ''ps'', ''raw'', ''rgba'',
                      ''svg'', ''svgz'', ''tif'', ''tiff'', ''webp'']"

text \<open>The file \<open>print_figure\<close> writes: a name without extension gets the
  default format's one, \<open>filename.rstrip('.') + '.png'\<close>.\<close>

definition save_target :: "string \<Rightarrow> string" where
  "save_target path =
     (if path_ext path = [] then rev (dropWhile (\<lambda>c. c = CHR ''.'') (rev path)) @ ''.png'' else path)"

definition plt_savefig :: "figure option \<Rightarrow> pfs \<Rightarrow> string \<Rightarrow> pyexc + pfs" where
  "plt_savefig p fs path =
     (let fmt = image_format path
      in if fmt \<in> set savefig_formats then Inr (fs(save_target path \<mapsto> Picture fmt (gcf p)))
         else Inl ValueError)"

text \<open>The script, from a fresh interpreter (no current figure) and the file
  system \<open>fs\<close>: the exception or success, the pyplot figure and the files
  at the end.\<close>

definition results_plot :: "string list \<Rightarrow> pfs \<Rightarrow> (pyexc + unit) \<times> figure option \<times> pfs" where
  "results_plot argv fs =
     (case argv_item argv 1 of
        Inl e \<Rightarrow> (Inl e, None, fs)
      | Inr inp \<Rightarrow>
          (case read_csv fs inp of
             Inl e \<Rightarrow> (Inl e, None, fs)
           | Inr df \<Rightarrow>
               (case column df ''vars'' of
                  Inl e \<Rightarrow> (Inl e, None, fs)
                | Inr xs \<Rightarrow>
                    (case column df ''time_sec'' of
                       Inl e \<Rightarrow> (Inl e, None, fs)
                     | Inr ys \<Rightarrow>
                         (case plt_plot None xs ys of
                            (Inl e, p1) \<Rightarrow> (Inl e, p1, fs)
                          | (Inr _, p1) \<Rightarrow>
                              (let p2 = plt_title (plt_ylabel (plt_xlabel p1 ''variables'') ''seconds'')
                                          ''DPLL (JW)''
                               in case argv_item argv 2 of
                                    Inl e \<Rightarrow> (Inl e, p2, fs)
                                  | Inr out \<Rightarrow>
                                      (case plt_savefig p2 fs out of
                                         Inl e \<Rightarrow> (Inl e, p2, fs)
                                       | Inr fs' \<Rightarrow> (Inr (), p2, fs'))))))))"

subsection \<open>Lemmas\<close>

lemma csv_frame_rect: "(name, cs) \<in> set (csv_frame names off rows) \<Longrightarrow> length cs = length rows"
  by (auto simp: csv_frame_def)

lemma read_csv_frame:
  "read_csv fs path = Inr df \<Longrightarrow>
   \<exists>names off rows. df = csv_frame names off rows"
  by (auto simp: read_csv_def Let_def split: option.splits fcontent.splits list.splits if_splits)

lemma column_Inr: "column df name = Inr cs \<Longrightarrow> (name, cs) \<in> set df"
  by (auto simp: column_def split: option.splits dest: map_of_SomeD)

lemma column_same_length:
  assumes "read_csv fs path = Inr df" "column df a = Inr xs" "column df b = Inr ys"
  shows "length xs = length ys"
proof -
  obtain names off rows where "df = csv_frame names off rows"
    using read_csv_frame [OF assms(1)] by blast
  with column_Inr [OF assms(2)] column_Inr [OF assms(3)] show ?thesis
    by (simp add: csv_frame_rect)
qed

lemma gcf_simps [simp]: "gcf (Some f) = f" "gcf None = new_figure"
  by (simp_all add: gcf_def)

lemmas plot_defs = results_plot_def plt_plot_def plt_xlabel_def plt_ylabel_def plt_title_def
  new_figure_def

text \<open>The figure after lines 4-7, when both columns were found.\<close>

definition plotted :: "cell list \<Rightarrow> cell list \<Rightarrow> figure" where
  "plotted xs ys = \<lparr>lines = [(xs, ys)], xlabel = ''variables'', ylabel = ''seconds'', title = ''DPLL (JW)''\<rparr>"

lemma plt_steps:
  "length xs = length ys \<Longrightarrow> plt_plot None xs ys = (Inr (), Some (new_figure\<lparr>lines := [(xs, ys)]\<rparr>))"
  "plt_title (plt_ylabel (plt_xlabel (Some (new_figure\<lparr>lines := [(xs, ys)]\<rparr>)) ''variables'') ''seconds'')
     ''DPLL (JW)'' = Some (plotted xs ys)"
  by (simp_all add: plt_plot_def plt_xlabel_def plt_ylabel_def plt_title_def plotted_def new_figure_def)

lemma results_plot_columns:
  assumes "1 < length argv" "read_csv fs (argv ! 1) = Inr df"
    and "column df ''vars'' = Inr xs" "column df ''time_sec'' = Inr ys"
  shows "results_plot argv fs =
           (case argv_item argv 2 of
              Inl e \<Rightarrow> (Inl e, Some (plotted xs ys), fs)
            | Inr out \<Rightarrow>
                (case plt_savefig (Some (plotted xs ys)) fs out of
                   Inl e \<Rightarrow> (Inl e, Some (plotted xs ys), fs)
                 | Inr fs' \<Rightarrow> (Inr (), Some (plotted xs ys), fs')))"
proof -
  have "argv_item argv 1 = Inr (argv ! 1)" using assms(1) by (simp add: argv_item_def)
  with assms plt_steps(1) [OF column_same_length [OF assms(2-4)]] show ?thesis
    by (simp add: results_plot_def plt_steps(2) Let_def split: sum.split)
qed

text \<open>A run either stops before line 4 with the interpreter untouched, or
  finds both columns.\<close>

lemma results_plot_cases:
  obtains (early) e where "results_plot argv fs = (Inl e, None, fs)"
  | (found) df xs ys where "1 < length argv" "read_csv fs (argv ! 1) = Inr df"
      "column df ''vars'' = Inr xs" "column df ''time_sec'' = Inr ys"
proof (cases "1 < length argv")
  case False
  then have "results_plot argv fs = (Inl IndexError, None, fs)"
    by (simp add: results_plot_def argv_item_def)
  then show ?thesis by (rule early)
next
  case True
  then have a1: "argv_item argv 1 = Inr (argv ! 1)" by (simp add: argv_item_def)
  show ?thesis
  proof (cases "read_csv fs (argv ! 1)")
    case (Inl e)
    with a1 show ?thesis by (intro early [of e]) (simp add: results_plot_def)
  next
    case (Inr df)
    show ?thesis
    proof (cases "column df ''vars''")
      case (Inl e)
      with a1 Inr show ?thesis by (intro early [of e]) (simp add: results_plot_def)
    next
      case xs: (Inr xs)
      show ?thesis
      proof (cases "column df ''time_sec''")
        case (Inl e)
        with a1 Inr xs show ?thesis by (intro early [of e]) (simp add: results_plot_def)
      next
        case (Inr ys)
        with True \<open>read_csv fs (argv ! 1) = Inr df\<close> xs show ?thesis by (rule found)
      qed
    qed
  qed
qed

lemma results_plot_example:
  assumes "image_format out \<in> set savefig_formats"
  shows "results_plot [''plot'', ''r.csv'', out] [''r.csv'' \<mapsto> Text ''vars,time_sec\<newline>1,0.5\<newline>2,1.0'']
     = (Inr (), Some (plotted [Some ''1'', Some ''2''] [Some ''0.5'', Some ''1.0'']),
        [''r.csv'' \<mapsto> Text ''vars,time_sec\<newline>1,0.5\<newline>2,1.0'',
         save_target out \<mapsto> Picture (image_format out) (plotted [Some ''1'', Some ''2''] [Some ''0.5'', Some ''1.0''])])"
proof -
  have r: "read_csv [''r.csv'' \<mapsto> Text ''vars,time_sec\<newline>1,0.5\<newline>2,1.0''] ''r.csv'' =
             Inr [(''vars'', [Some ''1'', Some ''2'']), (''time_sec'', [Some ''0.5'', Some ''1.0''])]"
    by code_simp
  have c: "column [(''vars'', [Some ''1'', Some ''2'']), (''time_sec'', [Some ''0.5'', Some ''1.0''])] ''vars''
             = Inr [Some ''1'', Some ''2'']"
          "column [(''vars'', [Some ''1'', Some ''2'']), (''time_sec'', [Some ''0.5'', Some ''1.0''])] ''time_sec''
             = Inr [Some ''0.5'', Some ''1.0'']"
    by code_simp+
  from r have r1: "read_csv [''r.csv'' \<mapsto> Text ''vars,time_sec\<newline>1,0.5\<newline>2,1.0'']
                      ([''plot'', ''r.csv'', out] ! 1) =
             Inr [(''vars'', [Some ''1'', Some ''2'']), (''time_sec'', [Some ''0.5'', Some ''1.0''])]" by simp
  from results_plot_columns [OF _ r1 c] assms show ?thesis
    by (simp add: argv_item_def plt_savefig_def Let_def)
qed

lemma results_plot_spec_example:
  "results_plot [''plot'', ''r.csv'', ''out.png''] [''r.csv'' \<mapsto> Text ''vars,time_sec\<newline>1,0.5\<newline>2,1.0'']
     = (Inr (), Some (plotted [Some ''1'', Some ''2''] [Some ''0.5'', Some ''1.0'']),
        [''r.csv'' \<mapsto> Text ''vars,time_sec\<newline>1,0.5\<newline>2,1.0'',
         ''out.png'' \<mapsto> Picture ''png'' (plotted [Some ''1'', Some ''2''] [Some ''0.5'', Some ''1.0''])])"
proof -
  have "image_format ''out.png'' = ''png''" "''png'' \<in> set savefig_formats"
    "save_target ''out.png'' = ''out.png''" by code_simp+
  with results_plot_example [of "''out.png''"] show ?thesis by simp
qed

text \<open>C23: a run of the plotter that succeeds has read the table at
  \<open>argv[1]\<close>, found both columns, drawn exactly one line of \<open>time_sec\<close>
  against \<open>vars\<close> with the labels and the title, and saved that figure at
  \<open>argv[2]\<close> in the format of its extension (a name without extension gets
  \<open>.png\<close> appended to it, its trailing dots dropped); no other file changes.\<close>

theorem results_plot_output:
  assumes "results_plot argv fs = (Inr (), p, fs')"
  shows "\<exists>df xs ys. 2 < length argv \<and> read_csv fs (argv ! 1) = Inr df \<and>
           column df ''vars'' = Inr xs \<and> column df ''time_sec'' = Inr ys \<and>
           p = Some (plotted xs ys) \<and> image_format (argv ! 2) \<in> set savefig_formats \<and>
           fs' = fs(save_target (argv ! 2) \<mapsto> Picture (image_format (argv ! 2)) (plotted xs ys))"
proof (cases argv fs rule: results_plot_cases)
  case (early e)
  with assms show ?thesis by simp
next
  case (found df xs ys)
  from assms [unfolded results_plot_columns [OF found]] found show ?thesis
    by (auto simp: argv_item_def plt_savefig_def Let_def split: if_splits)
qed

theorem results_plot_output_witness:
  "\<exists>df xs ys. 2 < length [''plot'', ''r.csv'', ''out.png''] \<and>
     read_csv [''r.csv'' \<mapsto> Text ''vars,time_sec\<newline>1,0.5\<newline>2,1.0''] (''r.csv'') = Inr df \<and>
     column df ''vars'' = Inr xs \<and> column df ''time_sec'' = Inr ys \<and>
     Some (plotted [Some ''1'', Some ''2''] [Some ''0.5'', Some ''1.0'']) = Some (plotted xs ys) \<and>
     image_format ''out.png'' \<in> set savefig_formats \<and>
     [''r.csv'' \<mapsto> Text ''vars,time_sec\<newline>1,0.5\<newline>2,1.0'',
      ''out.png'' \<mapsto> Picture ''png'' (plotted [Some ''1'', Some ''2''] [Some ''0.5'', Some ''1.0''])] =
     [''r.csv'' \<mapsto> Text ''vars,time_sec\<newline>1,0.5\<newline>2,1.0'']
       (save_target ''out.png'' \<mapsto> Picture (image_format ''out.png'') (plotted xs ys))"
proof -
  have "save_target ''out.png'' = ''out.png''" by code_simp
  with results_plot_output [OF results_plot_spec_example] show ?thesis by simp
qed

text \<open>C24: when the table has no \<open>time_sec\<close> column the plotter raises
  \<open>KeyError\<close> naming the first of \<open>vars\<close>, \<open>time_sec\<close> that is missing, before
  any figure exists and without writing a file.\<close>

theorem results_plot_missing_column:
  assumes "1 < length argv" "read_csv fs (argv ! 1) = Inr df" "map_of df ''time_sec'' = None"
  shows "\<exists>k. results_plot argv fs = (Inl (KeyError k), None, fs) \<and>
             k \<in> {''vars'', ''time_sec''} \<and> map_of df k = None"
proof -
  have "argv_item argv 1 = Inr (argv ! 1)" using assms(1) by (simp add: argv_item_def)
  with assms show ?thesis
    by (auto simp: results_plot_def column_def split: option.split)
qed

theorem results_plot_missing_column_witness:
  "1 < length [''plot'', ''r.csv'', ''out.png''] \<and>
   read_csv [''r.csv'' \<mapsto> Text ''vars,time\<newline>1,0.5''] ''r.csv'' =
     Inr [(''vars'', [Some ''1'']), (''time'', [Some ''0.5''])] \<and>
   map_of [(''vars'', [Some ''1'']), (''time'', [Some ''0.5''])] ''time_sec'' = None \<and>
   results_plot [''plot'', ''r.csv'', ''out.png''] [''r.csv'' \<mapsto> Text ''vars,time\<newline>1,0.5''] =
     (Inl (KeyError ''time_sec''), None, [''r.csv'' \<mapsto> Text ''vars,time\<newline>1,0.5''])"
proof -
  have r: "read_csv [''r.csv'' \<mapsto> Text ''vars,time\<newline>1,0.5''] ''r.csv'' =
             Inr [(''vars'', [Some ''1'']), (''time'', [Some ''0.5''])]" by code_simp
  have m: "map_of [(''vars'', [Some ''1'']), (''time'', [Some ''0.5''])] ''time_sec'' = None"
          "map_of [(''vars'', [Some ''1'']), (''time'', [Some ''0.5''])] ''vars'' = Some [Some ''1'']"
    by code_simp+
  from r have r1: "read_csv [''r.csv'' \<mapsto> Text ''vars,time\<newline>1,0.5''] ([''plot'', ''r.csv'', ''out.png''] ! 1) =
             Inr [(''vars'', [Some ''1'']), (''time'', [Some ''0.5''])]" by simp
  from results_plot_missing_column [OF _ r1 m(1)] m r
  show ?thesis by auto
qed

text \<open>C25: the output path \<open>sys.argv[2]\<close> is read only after the figure is
  drawn: with a single argument naming a good table the plotter builds the
  labelled figure and then raises \<open>IndexError\<close>; no file is written.\<close>

theorem results_plot_missing_output:
  assumes "length argv = 2" "read_csv fs (argv ! 1) = Inr df"
    "column df ''vars'' = Inr xs" "column df ''time_sec'' = Inr ys"
  shows "results_plot argv fs = (Inl IndexError, Some (plotted xs ys), fs)"
  using results_plot_columns [OF _ assms(2-4)] assms(1) by (simp add: argv_item_def)

theorem results_plot_missing_output_witness:
  "length [''plot'', ''r.csv''] = 2 \<and>
   read_csv [''r.csv'' \<mapsto> Text ''vars,time_sec\<newline>1,0.5''] ''r.csv'' =
     Inr [(''vars'', [Some ''1'']), (''time_sec'', [Some ''0.5''])] \<and>
   column [(''vars'', [Some ''1'']), (''time_sec'', [Some ''0.5''])] ''vars'' = Inr [Some ''1''] \<and>
   column [(''vars'', [Some ''1'']), (''time_sec'', [Some ''0.5''])] ''time_sec'' = Inr [Some ''0.5''] \<and>
   results_plot [''plot'', ''r.csv''] [''r.csv'' \<mapsto> Text ''vars,time_sec\<newline>1,0.5''] =
     (Inl IndexError, Some (plotted [Some ''1''] [Some ''0.5'']), [''r.csv'' \<mapsto> Text ''vars,time_sec\<newline>1,0.5''])"
proof -
  have r: "read_csv [''r.csv'' \<mapsto> Text ''vars,time_sec\<newline>1,0.5''] ''r.csv'' =
             Inr [(''vars'', [Some ''1'']), (''time_sec'', [Some ''0.5''])]" by code_simp
  have c: "column [(''vars'', [Some ''1'']), (''time_sec'', [Some ''0.5''])] ''vars'' = Inr [Some ''1'']"
          "column [(''vars'', [Some ''1'']), (''time_sec'', [Some ''0.5''])] ''time_sec'' = Inr [Some ''0.5'']"
    by code_simp+
  from r have r1: "read_csv [''r.csv'' \<mapsto> Text ''vars,time_sec\<newline>1,0.5''] ([''plot'', ''r.csv''] ! 1) =
             Inr [(''vars'', [Some ''1'']), (''time_sec'', [Some ''0.5''])]" by simp
  from results_plot_missing_output [OF _ r1 c] r c show ?thesis by simp
qed

text \<open>C26: whatever happens, the plotter changes no file but the one its
  \<open>savefig\<close> names, \<open>argv[2]\<close> or, for a name without extension,
  \<open>argv[2].rstrip('.') + '.png'\<close>, and that one only when it succeeds.\<close>

theorem results_plot_frame:
  assumes "results_plot argv fs = (r, p, fs')" "fs' q \<noteq> fs q"
  shows "r = Inr () \<and> 2 < length argv \<and> q = save_target (argv ! 2)"
proof (cases argv fs rule: results_plot_cases)
  case (early e)
  with assms show ?thesis by simp
next
  case (found df xs ys)
  from assms(1) [unfolded results_plot_columns [OF found]] assms(2) show ?thesis
    by (auto simp: argv_item_def plt_savefig_def Let_def split: if_splits)
qed

theorem results_plot_frame_witness:
  "results_plot [''plot'', ''r.csv'', ''fig..''] [''r.csv'' \<mapsto> Text ''vars,time_sec\<newline>1,0.5\<newline>2,1.0'']
     = (Inr (), Some (plotted [Some ''1'', Some ''2''] [Some ''0.5'', Some ''1.0'']),
        [''r.csv'' \<mapsto> Text ''vars,time_sec\<newline>1,0.5\<newline>2,1.0'',
         ''fig.png'' \<mapsto> Picture ''png'' (plotted [Some ''1'', Some ''2''] [Some ''0.5'', Some ''1.0''])]) \<and>
   2 < length [''plot'', ''r.csv'', ''fig..''] \<and> ''fig.png'' = save_target ([''plot'', ''r.csv'', ''fig..''] ! 2)"
proof -
  have f: "image_format ''fig..'' = ''png''" "''png'' \<in> set savefig_formats"
    "save_target ''fig..'' = ''fig.png''" by code_simp+
  with results_plot_example [of "''fig..''"] have run:
    "results_plot [''plot'', ''r.csv'', ''fig..''] [''r.csv'' \<mapsto> Text ''vars,time_sec\<newline>1,0.5\<newline>2,1.0'']
     = (Inr (), Some (plotted [Some ''1'', Some ''2''] [Some ''0.5'', Some ''1.0'']),
        [''r.csv'' \<mapsto> Text ''vars,time_sec\<newline>1,0.5\<newline>2,1.0'',
         ''fig.png'' \<mapsto> Picture ''png'' (plotted [Some ''1'', Some ''2''] [Some ''0.5'', Some ''1.0''])])"
    by simp
  from results_plot_frame [OF run, of "''fig.png''"] run show ?thesis by simp
qed

end
