(* ===== verification/Spec2Isabelle.thy ===== *)
theory Spec2Isabelle
  imports Plotter
begin

text \<open>
  \<^bold>\<open>A verification development for sat-solver-comparison.\<close>

  The repository holds two independent scripts. \<open>src/scripts/gen_random_3sat.py\<close>
  writes a random 3-SAT instance in DIMACS format from the arguments
  \<open>N M seed path\<close>; \<open>src/plot/results_plot.py\<close> reads a CSV table of
  benchmark times and saves a line chart. The generator is the composition
  of the script's own loop with pieces of the CPython runtime whose behaviour
  decides what it writes (the Mersenne Twister, \<open>random\<close>'s methods, the
  set of ints, \<open>int\<close>/\<open>str\<close>); the plotter is a sequence of pandas and pyplot
  calls. Each runtime piece is modelled from its CPython source and has its
  own theory; the scripts are modelled statement by statement.

  \<^bold>\<open>Theories and what they model.\<close>
  \<^item> \<open>Prelude\<close>: 32- and 64-bit words, the interface \<open>'s rng = 's \<Rightarrow> u32 \<times> 's\<close> of a
    random word source (CPython's \<open>genrand_uint32\<close>) and the word stream
    \<open>rng_stream\<close> it produces, Python exceptions (\<open>pyexc\<close>), and the result
    type \<open>('a, 's) pyres\<close> of a statement that may raise (\<open>Inl\<close>), return
    (\<open>Inr\<close>) or never return (\<open>None\<close>). The collection \<open>eval_simps\<close> and the
    congruences \<open>eval_cong\<close> evaluate the model on closed inputs by \<open>simp\<close>.
  \<^item> \<open>PyText\<close>: \<open>str(i)\<close> (\<open>str_int\<close>, lines 5 and 13), \<open>" ".join\<close> (\<open>join\<close>)
    and the builtin \<open>int(s)\<close> (\<open>py_int\<close>, line 2).
  \<^item> \<open>PyRandom\<close>: the \<open>random.Random\<close> methods the script calls, over any word
    source: \<open>getrandbits\<close>, the rejection loop \<open>_randbelow\<close> (\<open>randbelow\<close>,
    \<open>randbelow_loop\<close>), \<open>randrange\<close> (line 9) and \<open>random()\<close> (\<open>py_random\<close>,
    line 10) with its exact float.
  \<^item> \<open>PySet\<close>: CPython's set of ints (\<open>Objects/setobject.c\<close>): \<open>set()\<close>
    (\<open>set_new\<close>, line 7), \<open>add\<close> (\<open>set_add_entry\<close>, line 12, with the perturbed
    probe loop \<open>add_probe\<close> and resizing), \<open>len\<close> (\<open>set_len\<close>, line 8) and
    iteration in slot order (\<open>set_iter\<close>, line 13), with the hash \<open>py_hash\<close>.
  \<^item> \<open>Generator\<close>: lines 4-13 over any word source: \<open>draw_literal\<close> (lines
    9-11), \<open>fill_clause\<close> (the \<open>while\<close> loop, lines 8-12), \<open>clause_line\<close> and
    \<open>format_clause\<close> (line 13), \<open>header\<close> (line 5), \<open>write_clauses\<close> and
    \<open>gen_cnf\<close> (the \<open>for\<close> loop and the file, lines 4-13).
  \<^item> \<open>MersenneTwister\<close>: \<open>Modules/_randommodule.c\<close>: the state record
    \<open>mt_state\<close> (\<open>state[624]\<close>, \<open>index\<close>), \<open>genrand_uint32\<close> with its refill
    (\<open>twist\<close>) and \<open>tempering\<close>, \<open>init_genrand\<close>, \<open>init_by_array\<close>, and
    \<open>random.seed(int)\<close> (\<open>random_seed\<close>, line 3) with its key \<open>seed_key\<close> of
    \<open>abs(seed)\<close>; the reachability relation \<open>mt_reach\<close> of seed and draw steps.
  \<^item> \<open>Script\<close>: the whole generator: \<open>sys.argv[i]\<close> (\<open>argv_item\<close>), line 2
    (\<open>parse_args\<close>, left to right), line 3, and the file system as a map from
    paths to contents (\<open>run_script\<close>).
  \<^item> \<open>Dimacs\<close>: a DIMACS reader (specification side: the repository has none)
    used to state what the written file denotes.
  \<^item> \<open>Plotter\<close>: \<open>results_plot.py\<close>: \<open>read_csv\<close> (line 3), \<open>column\<close> (line
    4), pyplot's current figure (\<open>plt_plot\<close>, \<open>plt_xlabel\<close>, \<open>plt_ylabel\<close>,
    \<open>plt_title\<close>, lines 4-7), \<open>plt_savefig\<close> with the file it
    writes, \<open>save_target\<close> (line 8), and the run
    \<open>results_plot\<close>; files hold text or a saved figure.

  \<^bold>\<open>How state and effects are represented.\<close> The module-level generator is an
  explicit state threaded through every call; the output file is the text
  written so far, carried with that state, and becomes the file's contents
  when the \<open>with\<close> block is left. The rejection loops of \<open>_randbelow\<close>, of the
  clause and of the set's probing are \<^theory_text>\<open>partial_function (option)\<close>:
  \<open>None\<close> is "never returns", and their termination is proved as such. An
  exception is a value \<open>Inl e\<close> with the state at the raise. The plotter
  always ends, so its run returns the outcome, the figure and the files.

  \<^bold>\<open>What is proved\<close> (claims C1-C29).
  \<^item> Output: a generator run that returns wrote the header and \<open>max m 0\<close>
    lines of three distinct non-zero literals bounded by \<open>n\<close> (C1 for the
    body, C16 for the script); the file reads back as exactly that DIMACS
    instance (C21, C22); numbers read back through \<open>int()\<close> (C12).
  \<^item> Termination: the clause loop returns exactly when the drawn literals
    include three distinct values (C2); \<open>_randbelow(n)\<close> returns exactly when
    an accepted word occurs, and then the first one (C4, C5); \<open>n = 1\<close> never
    returns (C6).
  \<^item> The set: on the 8-slot table a clause uses, \<open>add\<close> returns, keeps the
    invariant \<open>small_wf\<close>, inserts exactly the key, and \<open>len\<close> counts the
    members (C3). Probing ends because \<open>i \<mapsto> (5i + 1) mod 8\<close> is one cycle
    through all slots once \<open>perturb\<close> is shifted to 0 (13 shifts).
    Iteration, and so the order of literals on a line, follows the slots,
    not the draws.
  \<^item> The Mersenne Twister: from a seeded state the \<open>j\<close>-th word is the tempered
    \<open>(624 + j)\<close>-th term of the MT19937 recurrence, so the in-place refill
    loops refine the recurrence (C13); the seed key is \<open>abs(seed)\<close> (C14); every
    reachable state keeps 624 words and an index of at most 624 (C15); from
    every well-formed state it returns the remaining words of the array and
    refills it on exactly the next draw, leaving index 1 (C28); the
    tempering is inverted by \<open>untempering\<close> (C29).
  \<^item> The script: its result does not depend on the generator state before
    seeding (C17); seeds \<open>s\<close> and \<open>-s\<close> give the same file (C18); argument
    errors raise before seeding or opening the file (C19, C20); edge cases
    of the body: \<open>n \<le> 0\<close> raises \<open>ValueError\<close> after the header (C7), every
    clause written for \<open>n = 2\<close> holds a literal and its negation (C8), \<open>m \<le> 0\<close> writes
    only the header (C9); \<open>randrange\<close> raises \<open>ValueError\<close>, consuming nothing, on every empty
    range and only there, and returns values in range (C11);
    \<open>random() < 0.5\<close> is the top bit of its first word (C10); \<open>getrandbits(k)\<close> is
    below \<open>2^k\<close> (C27).
  \<^item> The plotter: a successful run saved exactly one labelled line of
    \<open>time_sec\<close> against \<open>vars\<close> in the format of \<open>argv[2]\<close>'s extension, at the
    file \<open>savefig\<close> names (\<open>save_target\<close>: \<open>argv[2]\<close>, or
    \<open>argv[2].rstrip('.') + '.png'\<close> when it has no extension) (C23); a missing
    column raises \<open>KeyError\<close> before any figure or file (C24); a missing output
    argument raises after drawing (C25); no file but that one ever changes
    (C26).

  \<^bold>\<open>Bounds and fuel.\<close> No fuel is used. The bound 20 in \<open>small_wf\<close> is the
  number of probes after which every slot of an 8-slot table has been seen
  (lemma \<open>probe_cover\<close>); \<open>set_len \<le> 3\<close> before an add keeps the table at 8
  slots (a resize happens only when \<open>fill * 5 \<ge> 21\<close>). Theorems on
  \<open>_randbelow\<close> assume \<open>n < 2^32\<close>, where \<open>getrandbits\<close> reads one word. The
  Mersenne Twister theorems assume the 624-word array CPython allocates.

  \<^bold>\<open>Not modelled.\<close>
  \<^item> Seeding from \<open>os.urandom\<close> at import and \<open>random.seed(None)\<close>: the script
    always seeds with an int, and C17 shows the earlier state is irrelevant.
    The Python-level \<open>gauss_next\<close> reset of \<open>seed\<close> is not modelled; the script
    never calls \<open>gauss\<close>.
  \<^item> Set deletion (dummy slots): the script never removes from a set.
  \<^item> \<open>open()\<close> failing (\<open>OSError\<close>) and partial output of a run that never
    ends: the file system is a map and a run that never ends has no result.
  \<^item> pandas' type inference, quoting and carriage returns in \<open>read_csv\<close>; the
    pixels of a saved figure (an image is its format and figure). pandas and
    matplotlib are libraries the script only calls; their modelled parts are
    the ones its behaviour depends on.
  \<^item> Concrete runs from a seed: the model computes them (\<open>random_seed\<close>
    reproduces CPython's state), but rewriting a 624-word state through
    \<open>init_by_array\<close> and \<open>twist\<close> by \<open>simp\<close> is too slow to be practical, so
    the concrete runs in the lemmas use the small word source \<open>demo_rng\<close>.
\<close>

end
